theory Spec2Isabelle
  imports Main "HOL-Library.AList" "HOL-Library.Sublist"
begin

section \<open>Python values\<close>

text \<open>
  A Python \<open>str\<close> is modelled as a \<open>string\<close>; a \<open>char\<close> stands for a code point
  below 256. A flat dictionary from strings to strings (a neighbor, a version record, the
  connection parameters of a device) is an association list with distinct keys:
  \<open>d[k] = v\<close> is \<open>AList.update k v d\<close> (a new key goes to the end, an old key keeps its
  place, as in a Python dict) and \<open>d.get(k)\<close> is \<open>map_of d k\<close>.
\<close>

type_synonym pydict = "(string \<times> string) list"

text \<open>What a command's output can be: text, or what a templated extractor made of it.\<close>

datatype pyval = Str string | PyList "pydict list" | PyDict pydict

datatype exn =
    NetmikoTimeoutException string
  | NetmikoAuthenticationException string
  | TypeError string
  | ValueError string
  | OtherException string

fun str_exn :: "exn \<Rightarrow> string" where
  "str_exn (NetmikoTimeoutException m) = m"
| "str_exn (NetmikoAuthenticationException m) = m"
| "str_exn (TypeError m) = m"
| "str_exn (ValueError m) = m"
| "str_exn (OtherException m) = m"

text \<open>Truth value of \<open>d.get(k)\<close>: \<open>None\<close> and the empty string are false.\<close>

fun truthy :: "string option \<Rightarrow> bool" where
  "truthy None = False"
| "truthy (Some v) = (v \<noteq> [])"

text \<open>
  \<open>str.isspace\<close> on one character, and the class \<open>\s\<close> of \<open>re\<close> on a \<open>str\<close> pattern:
  the code points below 256 that Python counts as whitespace.
\<close>

definition isspace :: "char \<Rightarrow> bool" where
  "isspace c = (c \<in> set [CHR 0x09, CHR 0x0A, CHR 0x0B, CHR 0x0C, CHR 0x0D,
     CHR 0x1C, CHR 0x1D, CHR 0x1E, CHR 0x1F, CHR 0x20, CHR 0x85, CHR 0xA0])"

definition strip :: "string \<Rightarrow> string" where
  "strip s = rev (dropWhile isspace (rev (dropWhile isspace s)))"

section \<open>The regular expressions of \<open>data_parser.py\<close>\<close>

text \<open>
  The fragment of Python's \<open>re\<close> that the parser's patterns use. \<open>Rep c n True\<close> is the greedy
  repetition \<open>c{n,}\<close> of a character class, \<open>Rep c n False\<close> the lazy one; \<open>Upto n r\<close> is the
  greedy \<open>(?:r){0,n}\<close>; \<open>Group\<close> is the capturing group (each pattern has one).
\<close>

datatype cclass = Dot | Space | Chars string | Neg cclass | Union cclass cclass

primrec in_class :: "cclass \<Rightarrow> char \<Rightarrow> bool" where
  "in_class Dot c = (c \<noteq> CHR 0x0A)"
| "in_class Space c = isspace c"
| "in_class (Chars cs) c = (c \<in> set cs)"
| "in_class (Neg k) c = (\<not> in_class k c)"
| "in_class (Union k l) c = (in_class k c \<or> in_class l c)"

datatype regex =
    Lit string
  | Cls cclass
  | Rep cclass nat bool
  | Seq regex regex
  | Alt regex regex
  | Group regex
  | Upto nat regex

text \<open>
  A backtracking matcher as a list of successes: every way the pattern matches a prefix
  of the input, in the order in which Python's engine tries them, each with the input
  left over and the text of group 1. The engine's answer is the head of the list.
\<close>

type_synonym matches = "(string \<times> string option) list"

primrec rep_upto :: "nat \<Rightarrow> (string \<Rightarrow> string option \<Rightarrow> matches) \<Rightarrow> string \<Rightarrow> string option \<Rightarrow> matches" where
  "rep_upto 0 m s g = [(s, g)]"
| "rep_upto (Suc n) m s g = concat (map (\<lambda>(s', g'). rep_upto n m s' g') (m s g)) @ [(s, g)]"

primrec match_at :: "regex \<Rightarrow> string \<Rightarrow> string option \<Rightarrow> matches" where
  "match_at (Lit l) = (\<lambda>s g. if take (length l) s = l then [(drop (length l) s, g)] else [])"
| "match_at (Cls k) = (\<lambda>s g. case s of [] \<Rightarrow> [] | c # cs \<Rightarrow> if in_class k c then [(cs, g)] else [])"
| "match_at (Rep k lo greedy) = (\<lambda>s g.
     let n = length (takeWhile (in_class k) s);
         counts = (if greedy then rev [lo ..< Suc n] else [lo ..< Suc n])
     in map (\<lambda>i. (drop i s, g)) counts)"
| "match_at (Seq a b) = (\<lambda>s g. concat (map (\<lambda>(s', g'). match_at b s' g') (match_at a s g)))"
| "match_at (Alt a b) = (\<lambda>s g. match_at a s g @ match_at b s g)"
| "match_at (Group r) = (\<lambda>s g. map (\<lambda>(s', g'). (s', Some (take (length s - length s') s))) (match_at r s g))"
| "match_at (Upto n r) = (\<lambda>s g. rep_upto n (match_at r) s g)"

fun seq :: "regex list \<Rightarrow> regex" where
  "seq [] = Lit []"
| "seq [r] = r"
| "seq (r # rs) = Seq r (seq rs)"

text \<open>
  \<open>re.search\<close>: the leftmost position at which the pattern matches. The result is the
  text before the match, the text after it, and group 1.
\<close>

fun re_search :: "regex \<Rightarrow> string \<Rightarrow> (string \<times> string \<times> string option) option" where
  "re_search r [] = (case match_at r [] None of [] \<Rightarrow> None | (rest, g) # _ \<Rightarrow> Some ([], rest, g))"
| "re_search r (c # cs) =
     (case match_at r (c # cs) None of
        (rest, g) # _ \<Rightarrow> Some ([], rest, g)
      | [] \<Rightarrow> (case re_search r cs of
                 None \<Rightarrow> None
               | Some (pre, rest, g) \<Rightarrow> Some (c # pre, rest, g)))"

text \<open>\<open>m.group(1)\<close> of \<open>m = re.search(r, s)\<close>, and \<open>None\<close> when there is no match.\<close>

definition search_group1 :: "regex \<Rightarrow> string \<Rightarrow> string option" where
  "search_group1 r s = (case re_search r s of None \<Rightarrow> None | Some (pre, rest, g) \<Rightarrow> g)"

text \<open>
  \<open>re.split\<close> for a pattern without groups whose matches are never empty (both separators
  of the parser need three characters or more): the pieces between successive matches.
\<close>

fun re_split :: "regex \<Rightarrow> string \<Rightarrow> string list" where
  "re_split r s =
     (case re_search r s of
        None \<Rightarrow> [s]
      | Some (pre, rest, g) \<Rightarrow> if length rest < length s then pre # re_split r rest else [s])"

text \<open>
  A pattern in which group 1 takes part in every match, so that \<open>m.group(1)\<close> is a string
  whenever \<open>m\<close> is a match.
\<close>

fun captures :: "regex \<Rightarrow> bool" where
  "captures (Group r) = True"
| "captures (Seq a b) = (captures a \<or> captures b)"
| "captures (Alt a b) = (captures a \<and> captures b)"
| "captures r = False"

definition CR_LF :: cclass where
  "CR_LF = Chars [CHR 0x0D, CHR 0x0A]"

section \<open>The output parser (\<open>data_parser.py\<close>)\<close>

text \<open>
  The patterns, each under the Python source it transcribes.

  \<^verbatim>\<open>-{3,}\<close>
\<close>

definition cdp_separator_re :: regex where
  "cdp_separator_re = Rep (Chars ''-'') 3 True"

text \<open>\<^verbatim>\<open>Device ID:[\s]*(.+?)[\r\n]\<close>\<close>

definition cdp_device_id_re :: regex where
  "cdp_device_id_re = seq [Lit ''Device ID:'', Rep Space 0 True, Group (Rep Dot 1 False), Cls CR_LF]"

text \<open>\<^verbatim>\<open>IP(?:v4)? address:[\s]*(.+?)[\r\n]\<close>\<close>

definition cdp_ip_re :: regex where
  "cdp_ip_re = seq [Lit ''IP'', Upto 1 (Lit ''v4''), Lit '' address:'', Rep Space 0 True,
     Group (Rep Dot 1 False), Cls CR_LF]"

text \<open>\<^verbatim>\<open>Platform:[\s]*(.+?),\<close>\<close>

definition cdp_platform_re :: regex where
  "cdp_platform_re = seq [Lit ''Platform:'', Rep Space 0 True, Group (Rep Dot 1 False), Lit '','']"

text \<open>\<^verbatim>\<open>Interface:[\s]*(.+?),\<close>\<close>

definition cdp_local_int_re :: regex where
  "cdp_local_int_re = seq [Lit ''Interface:'', Rep Space 0 True, Group (Rep Dot 1 False), Lit '','']"

text \<open>\<^verbatim>\<open>Port ID \(outgoing port\):[\s]*(.+?)[\r\n]\<close>\<close>

definition cdp_remote_int_re :: regex where
  "cdp_remote_int_re = seq [Lit ''Port ID (outgoing port):'', Rep Space 0 True,
     Group (Rep Dot 1 False), Cls CR_LF]"

text \<open>\<^verbatim>\<open>[\r\n][\r\n]Device ID:.+?[\r\n]\<close>\<close>

definition lldp_separator_re :: regex where
  "lldp_separator_re = seq [Cls CR_LF, Cls CR_LF, Lit ''Device ID:'', Rep Dot 1 False, Cls CR_LF]"

text \<open>\<^verbatim>\<open>System Name:[\s]*(.+?)[\r\n]\<close>\<close>

definition lldp_device_id_re :: regex where
  "lldp_device_id_re = seq [Lit ''System Name:'', Rep Space 0 True, Group (Rep Dot 1 False), Cls CR_LF]"

text \<open>\<^verbatim>\<open>Management Address:[\s]*(.+?)[\r\n]\<close>\<close>

definition lldp_ip_re :: regex where
  "lldp_ip_re = seq [Lit ''Management Address:'', Rep Space 0 True, Group (Rep Dot 1 False), Cls CR_LF]"

text \<open>\<^verbatim>\<open>Local Interface:[\s]*(.+?)[\r\n]\<close>\<close>

definition lldp_local_int_re :: regex where
  "lldp_local_int_re = seq [Lit ''Local Interface:'', Rep Space 0 True, Group (Rep Dot 1 False), Cls CR_LF]"

text \<open>\<^verbatim>\<open>Port ID:[\s]*(.+?)[\r\n]\<close>\<close>

definition lldp_remote_int_re :: regex where
  "lldp_remote_int_re = seq [Lit ''Port ID:'', Rep Space 0 True, Group (Rep Dot 1 False), Cls CR_LF]"

text \<open>\<^verbatim>\<open>(?:cisco|Cisco)\s+(\S+)(?:\s+\S+){0,3}\s+processor\<close>\<close>

definition version_model_re :: regex where
  "version_model_re = seq [Alt (Lit ''cisco'') (Lit ''Cisco''), Rep Space 1 True,
     Group (Rep (Neg Space) 1 True),
     Upto 3 (Seq (Rep Space 1 True) (Rep (Neg Space) 1 True)),
     Rep Space 1 True, Lit ''processor'']"

text \<open>\<^verbatim>\<open>Cisco IOS Software.*Version\s+([^,\s]+)\<close>\<close>

definition version_ios_re :: regex where
  "version_ios_re = seq [Lit ''Cisco IOS Software'', Rep Dot 0 True, Lit ''Version'',
     Rep Space 1 True, Group (Rep (Neg (Union (Chars '','') Space)) 1 True)]"

text \<open>\<^verbatim>\<open>(\S+)\s+uptime\s+is\<close>\<close>

definition version_hostname_re :: regex where
  "version_hostname_re = seq [Group (Rep (Neg Space) 1 True), Rep Space 1 True, Lit ''uptime'',
     Rep Space 1 True, Lit ''is'']"

text \<open>
  One field of a neighbor:
  \<^verbatim>\<open>m = re.search(r, block)\<close>, \<^verbatim>\<open>if m: neighbor[key] = m.group(1).strip()\<close>.
\<close>

definition extract_field :: "string \<Rightarrow> regex \<Rightarrow> string \<Rightarrow> pydict \<Rightarrow> pydict" where
  "extract_field key r block neighbor =
     (case search_group1 r block of
        None \<Rightarrow> neighbor
      | Some g \<Rightarrow> AList.update key (strip g) neighbor)"

text \<open>
  The test before \<open>neighbors.append(neighbor)\<close>:
  \<^verbatim>\<open>neighbor.get('device_id') and neighbor.get('ip')\<close>.
\<close>

definition essential :: "pydict \<Rightarrow> bool" where
  "essential neighbor = (truthy (map_of neighbor ''device_id'') \<and> truthy (map_of neighbor ''ip''))"

text \<open>The dictionary that \<open>parse_cdp_neighbors\<close> builds for one block.\<close>

definition cdp_block_neighbor :: "string \<Rightarrow> pydict" where
  "cdp_block_neighbor block =
     (let neighbor = [];
          neighbor = extract_field ''device_id'' cdp_device_id_re block neighbor;
          neighbor = extract_field ''ip'' cdp_ip_re block neighbor;
          neighbor = extract_field ''platform'' cdp_platform_re block neighbor;
          neighbor = extract_field ''local_interface'' cdp_local_int_re block neighbor;
          neighbor = extract_field ''remote_interface'' cdp_remote_int_re block neighbor
      in neighbor)"

text \<open>The loop over the blocks; \<open>neighbors\<close> is the list built so far.\<close>

fun parse_cdp_blocks :: "string list \<Rightarrow> pydict list \<Rightarrow> pydict list" where
  "parse_cdp_blocks [] neighbors = neighbors"
| "parse_cdp_blocks (block # blocks) neighbors =
     (if strip block = [] then parse_cdp_blocks blocks neighbors
      else let neighbor = cdp_block_neighbor block in
        if essential neighbor
        then parse_cdp_blocks blocks (neighbors @ [neighbor])
        else parse_cdp_blocks blocks neighbors)"

text \<open>
  \<open>parse_cdp_neighbors\<close>. A list is returned as it is; text is split and parsed; on a
  dictionary \<open>re.split\<close> raises \<open>TypeError\<close>.
\<close>

fun parse_cdp_neighbors :: "pyval \<Rightarrow> exn + pydict list" where
  "parse_cdp_neighbors (PyList output) = Inr output"
| "parse_cdp_neighbors (Str output) = Inr (parse_cdp_blocks (re_split cdp_separator_re output) [])"
| "parse_cdp_neighbors (PyDict output) = Inl (TypeError ''expected string or bytes-like object'')"

definition lldp_block_neighbor :: "string \<Rightarrow> pydict" where
  "lldp_block_neighbor block =
     (let neighbor = [];
          neighbor = extract_field ''device_id'' lldp_device_id_re block neighbor;
          neighbor = extract_field ''ip'' lldp_ip_re block neighbor;
          neighbor = extract_field ''local_interface'' lldp_local_int_re block neighbor;
          neighbor = extract_field ''remote_interface'' lldp_remote_int_re block neighbor
      in neighbor)"

fun parse_lldp_blocks :: "string list \<Rightarrow> pydict list \<Rightarrow> pydict list" where
  "parse_lldp_blocks [] neighbors = neighbors"
| "parse_lldp_blocks (block # blocks) neighbors =
     (if strip block = [] then parse_lldp_blocks blocks neighbors
      else let neighbor = lldp_block_neighbor block in
        if essential neighbor
        then parse_lldp_blocks blocks (neighbors @ [neighbor])
        else parse_lldp_blocks blocks neighbors)"

fun parse_lldp_neighbors :: "pyval \<Rightarrow> exn + pydict list" where
  "parse_lldp_neighbors (PyList output) = Inr output"
| "parse_lldp_neighbors (Str output) = Inr (parse_lldp_blocks (re_split lldp_separator_re output) [])"
| "parse_lldp_neighbors (PyDict output) = Inl (TypeError ''expected string or bytes-like object'')"

text \<open>
  \<open>parse_interfaces\<close>: a list is re-keyed by \<open>intf.get('interface', 'unknown')\<close>; anything
  else gives the empty dictionary.
\<close>

fun parse_interfaces :: "pyval \<Rightarrow> (string \<times> pydict) list" where
  "parse_interfaces (PyList output) =
     fold (\<lambda>intf interface_dict.
             AList.update (case map_of intf ''interface'' of None \<Rightarrow> ''unknown'' | Some n \<Rightarrow> n)
               intf interface_dict)
       output []"
| "parse_interfaces (Str output) = []"
| "parse_interfaces (PyDict output) = []"

text \<open>
  One field of the version record:
  \<^verbatim>\<open>m = re.search(r, output)\<close>, \<^verbatim>\<open>if m: version_info[key] = m.group(1)\<close>.
\<close>

definition extract_version_field :: "string \<Rightarrow> regex \<Rightarrow> string \<Rightarrow> pydict \<Rightarrow> pydict" where
  "extract_version_field key r output version_info =
     (case search_group1 r output of
        None \<Rightarrow> version_info
      | Some g \<Rightarrow> AList.update key g version_info)"

text \<open>
  \<open>parse_version\<close>. The result is a Python value: the dictionary itself, the first
  element of a list that has one, the list itself when it is empty, and for text the
  dictionary of the fields found.
\<close>

fun parse_version :: "pyval \<Rightarrow> pyval" where
  "parse_version (PyDict output) = PyDict output"
| "parse_version (PyList []) = PyList []"
| "parse_version (PyList (x # xs)) = PyDict x"
| "parse_version (Str output) =
     (let version_info = [];
          version_info = extract_version_field ''hardware'' version_model_re output version_info;
          version_info = extract_version_field ''version'' version_ios_re output version_info;
          version_info = extract_version_field ''hostname'' version_hostname_re output version_info
      in PyDict version_info)"

text \<open>\<open>isinstance(v, dict)\<close>.\<close>

fun is_dict :: "pyval \<Rightarrow> bool" where
  "is_dict (PyDict d) = True"
| "is_dict (PyList l) = False"
| "is_dict (Str s) = False"

section \<open>The collaborators outside the repository\<close>

text \<open>
  The \<open>netmiko\<close> library and the clock, over a state of the outside world \<open>'w\<close> that every
  call may read and change, so that a device may answer differently each time. A raised
  exception is \<open>Inl\<close>. \<open>send_command\<close> is the call without \<open>use_textfsm\<close>, which returns
  text; \<open>send_command_textfsm\<close> is the call with \<open>use_textfsm=True\<close>. Logging and the
  pause after a command are left out.
\<close>

record ('w, 'c) netmiko =
  ConnectHandler :: "pydict \<Rightarrow> 'w \<Rightarrow> (exn + 'c) \<times> 'w"
  send_command :: "'c \<Rightarrow> string \<Rightarrow> 'w \<Rightarrow> (exn + string) \<times> 'w"
  send_command_textfsm :: "'c \<Rightarrow> string \<Rightarrow> 'w \<Rightarrow> (exn + pyval) \<times> 'w"
  connection_disconnect :: "'c \<Rightarrow> 'w \<Rightarrow> (exn + unit) \<times> 'w"
  now_isoformat :: "'w \<Rightarrow> string \<times> 'w"

text \<open>
  The standard library's \<open>ipaddress\<close>: \<open>ip_address\<close> and \<open>ip_network\<close> give \<open>None\<close> where
  Python raises \<open>ValueError\<close>; a network is its membership test \<open>ip_addr in network\<close>.
\<close>

record 'a ipaddress =
  ip_address :: "string \<Rightarrow> 'a option"
  ip_network :: "string \<Rightarrow> ('a \<Rightarrow> bool) option"

section \<open>The device connector (\<open>device_connector.py\<close>)\<close>

text \<open>\<open>connect\<close>: every exception of \<open>ConnectHandler\<close> is caught and gives \<open>None\<close>.\<close>

definition connect :: "('w, 'c) netmiko \<Rightarrow> pydict \<Rightarrow> 'w \<Rightarrow> 'c option \<times> 'w" where
  "connect nm device_params w =
     (case ConnectHandler nm device_params w of
        (Inr connection, w') \<Rightarrow> (Some connection, w')
      | (Inl e, w') \<Rightarrow> (None, w'))"

text \<open>The call inside the \<open>try\<close> of \<open>execute_commands\<close>.\<close>

definition send :: "('w, 'c) netmiko \<Rightarrow> 'c \<Rightarrow> bool \<Rightarrow> string \<Rightarrow> 'w \<Rightarrow> (exn + pyval) \<times> 'w" where
  "send nm connection parse_output command w =
     (if parse_output then send_command_textfsm nm connection command w
      else case send_command nm connection command w of
             (Inr output, w') \<Rightarrow> (Inr (Str output), w')
           | (Inl e, w') \<Rightarrow> (Inl e, w'))"

text \<open>The loop of \<open>execute_commands\<close>; \<open>results\<close> is the dictionary built so far.\<close>

fun execute_loop ::
  "('w, 'c) netmiko \<Rightarrow> 'c \<Rightarrow> bool \<Rightarrow> string list \<Rightarrow> (string \<times> pyval) list \<Rightarrow> 'w
     \<Rightarrow> (string \<times> pyval) list \<times> 'w" where
  "execute_loop nm connection parse_output [] results w = (results, w)"
| "execute_loop nm connection parse_output (command # commands) results w =
     (case send nm connection parse_output command w of
        (Inr output, w') \<Rightarrow>
          execute_loop nm connection parse_output commands (AList.update command output results) w'
      | (Inl e, w') \<Rightarrow>
          execute_loop nm connection parse_output commands
            (AList.update command (Str (''ERROR: '' @ str_exn e)) results) w')"

definition execute_commands ::
  "('w, 'c) netmiko \<Rightarrow> 'c \<Rightarrow> string list \<Rightarrow> bool \<Rightarrow> 'w \<Rightarrow> (string \<times> pyval) list \<times> 'w" where
  "execute_commands nm connection commands parse_output w =
     execute_loop nm connection parse_output commands [] w"

text \<open>\<open>disconnect\<close>: an exception is caught.\<close>

definition disconnect :: "('w, 'c) netmiko \<Rightarrow> 'c \<Rightarrow> 'w \<Rightarrow> 'w" where
  "disconnect nm connection w = snd (connection_disconnect nm connection w)"

section \<open>Discovery of one device (\<open>discover_single_device\<close>)\<close>

text \<open>
  The dictionary \<open>device_data\<close>. Its keys with a string value (\<open>ip\<close>, \<open>discovered_at\<close> and
  what \<open>update(version_data)\<close> adds) are the dictionary \<open>dd_items\<close>; the keys \<open>neighbors\<close>,
  \<open>interfaces\<close> and \<open>raw_output\<close> are the fields \<open>dd_neighbors\<close>, \<open>dd_interfaces\<close> and
  \<open>dd_raw_output\<close>, \<open>None\<close> while the key is absent.
\<close>

record device_data =
  dd_items :: pydict
  dd_neighbors :: "pydict list option"
  dd_interfaces :: "(string \<times> pydict) list option"
  dd_raw_output :: "(string \<times> pyval) list option"

definition discovery_commands :: "string list" where
  "discovery_commands =
     [''show version'', ''show cdp neighbors detail'', ''show lldp neighbors detail'',
      ''show interfaces'', ''show ip interface brief'', ''show vlan brief'',
      ''show spanning-tree bridge'', ''show ip route'']"

text \<open>\<open>results.get(command, '')\<close>.\<close>

definition get_output :: "(string \<times> pyval) list \<Rightarrow> string \<Rightarrow> pyval" where
  "get_output results command = (case map_of results command of None \<Rightarrow> Str [] | Some v \<Rightarrow> v)"

text \<open>
  \<open>d.update(v)\<close> of a dictionary with a Python value, as the interpreter does it: a
  dictionary gives its items; a list gives one item per element, which must have two
  members (iterating a dictionary gives its keys); a string gives one item per character,
  which has one member. The result is the dictionary as the call leaves it and the
  exception it raised, if any.
\<close>

fun update_from_list :: "pydict \<Rightarrow> pydict list \<Rightarrow> pydict \<times> exn option" where
  "update_from_list d [] = (d, None)"
| "update_from_list d ([(k, _), (v, _)] # xs) = update_from_list (AList.update k v d) xs"
| "update_from_list d (x # xs) =
     (d, Some (ValueError ''dictionary update sequence element has the wrong length''))"

fun dict_update :: "pydict \<Rightarrow> pyval \<Rightarrow> pydict \<times> exn option" where
  "dict_update d (PyDict v) = (fold (\<lambda>(k, x). AList.update k x) v d, None)"
| "dict_update d (PyList xs) = update_from_list d xs"
| "dict_update d (Str []) = (d, None)"
| "dict_update d (Str (c # cs)) =
     (d, Some (ValueError ''dictionary update sequence element has the wrong length''))"

text \<open>
  The neighbor reconciler: the loop over the LLDP neighbors, with the list
  \<open>all_neighbors\<close> and the set \<open>neighbor_ips\<close> built so far.
\<close>

fun merge_lldp :: "pydict list \<Rightarrow> pydict list \<Rightarrow> string option set \<Rightarrow> pydict list" where
  "merge_lldp [] all_neighbors neighbor_ips = all_neighbors"
| "merge_lldp (lldp_neighbor # rest) all_neighbors neighbor_ips =
     (if map_of lldp_neighbor ''ip'' \<notin> neighbor_ips
      then merge_lldp rest (all_neighbors @ [lldp_neighbor])
             (insert (map_of lldp_neighbor ''ip'') neighbor_ips)
      else merge_lldp rest all_neighbors neighbor_ips)"

definition merge_neighbors :: "pydict list \<Rightarrow> pydict list \<Rightarrow> pydict list" where
  "merge_neighbors cdp_neighbors lldp_neighbors =
     (let all_neighbors = cdp_neighbors;
          neighbor_ips = set (map (\<lambda>n. map_of n ''ip'')
                                (filter (\<lambda>n. truthy (map_of n ''ip'')) all_neighbors))
      in merge_lldp lldp_neighbors all_neighbors neighbor_ips)"

text \<open>
  The body of the \<open>try\<close> after the commands have run. An exception leaves \<open>device_data\<close>
  as it was when it was raised; the handler only logs it.
\<close>

definition parse_results :: "(string \<times> pyval) list \<Rightarrow> device_data \<Rightarrow> device_data" where
  "parse_results results device_data =
     (let version_data = parse_version (get_output results ''show version'');
          (fs, raised) = dict_update (dd_items device_data) version_data;
          device_data = device_data\<lparr>dd_items := fs\<rparr>
      in case raised of
           Some e \<Rightarrow> device_data
         | None \<Rightarrow>
            (case parse_cdp_neighbors (get_output results ''show cdp neighbors detail'') of
               Inl e \<Rightarrow> device_data
             | Inr cdp_neighbors \<Rightarrow>
                (case parse_lldp_neighbors (get_output results ''show lldp neighbors detail'') of
                   Inl e \<Rightarrow> device_data
                 | Inr lldp_neighbors \<Rightarrow>
                    (let all_neighbors = merge_neighbors cdp_neighbors lldp_neighbors;
                         device_data = device_data\<lparr>dd_neighbors := Some all_neighbors\<rparr>;
                         interfaces = parse_interfaces (get_output results ''show interfaces'');
                         device_data = device_data\<lparr>dd_interfaces := Some interfaces\<rparr>
                     in device_data\<lparr>dd_raw_output := Some results\<rparr>))))"

definition discover_single_device ::
  "('w, 'c) netmiko \<Rightarrow> pydict \<Rightarrow> 'w \<Rightarrow> device_data \<times> 'w" where
  "discover_single_device nm device_params w =
     (let device_ip = (case map_of device_params ''ip'' of None \<Rightarrow> ''unknown'' | Some i \<Rightarrow> i);
          (now, w) = now_isoformat nm w;
          device_data = \<lparr>dd_items = [(''ip'', device_ip), (''discovered_at'', now)],
                         dd_neighbors = None, dd_interfaces = None, dd_raw_output = None\<rparr>;
          (connection, w) = connect nm device_params w
      in case connection of
           None \<Rightarrow> (device_data, w)
         | Some c \<Rightarrow>
            (let (results, w) = execute_commands nm c discovery_commands False w;
                 device_data = parse_results results device_data;
                 w = disconnect nm c w
             in (device_data, w)))"

section \<open>The discovery frontier (\<open>discover_network\<close>)\<close>

text \<open>
  The variables of \<open>discover_network\<close> that the loop changes, the state of the outside
  world, and \<open>visit_log\<close>: the addresses on which \<open>discover_single_device\<close> has been
  called, in order. The log is not a variable of the program; it records the calls.
  \<open>discovered_devices\<close> is keyed by the address string; \<open>attempted_ips\<close> holds values of
  \<open>device_params.get('ip')\<close>, which is \<open>None\<close> when the key is absent.
\<close>

record 'w frontier =
  discovered_devices :: "(string \<times> device_data) list"
  discovery_queue :: "pydict list"
  attempted_ips :: "string option set"
  world :: 'w
  visit_log :: "string list"

text \<open>
  \<open>ignored_networks\<close>: the subnets that \<open>ip_network\<close> accepts; the others are logged and
  left out.
\<close>

definition ignored_networks_of :: "'a ipaddress \<Rightarrow> string list option \<Rightarrow> ('a \<Rightarrow> bool) list" where
  "ignored_networks_of ipa ignore_subnets =
     (case ignore_subnets of
        None \<Rightarrow> []
      | Some subnets \<Rightarrow> List.map_filter (ip_network ipa) subnets)"

text \<open>\<open>any(ip_addr in network for network in ignored_networks)\<close>.\<close>

definition in_ignored :: "('a \<Rightarrow> bool) list \<Rightarrow> 'a \<Rightarrow> bool" where
  "in_ignored ignored_networks ip_addr = list_ex (\<lambda>network. network ip_addr) ignored_networks"

text \<open>
  The loop over the neighbors of a discovered device. \<open>queue\<close> is the discovery queue as
  the loop has left it so far: the list of queued addresses is built from it anew for
  every neighbor.
\<close>

fun enqueue_neighbors ::
  "'a ipaddress \<Rightarrow> ('a \<Rightarrow> bool) list \<Rightarrow> pydict \<Rightarrow> string option set \<Rightarrow> pydict list \<Rightarrow> pydict list
     \<Rightarrow> pydict list" where
  "enqueue_neighbors ipa ignored_networks device_params attempted [] queue = queue"
| "enqueue_neighbors ipa ignored_networks device_params attempted (neighbor # rest) queue =
     (case map_of neighbor ''ip'' of
        None \<Rightarrow> enqueue_neighbors ipa ignored_networks device_params attempted rest queue
      | Some neighbor_ip \<Rightarrow>
          if neighbor_ip \<noteq> [] \<and> Some neighbor_ip \<notin> attempted
             \<and> Some neighbor_ip \<notin> set (map (\<lambda>d. map_of d ''ip'') queue)
          then (case ip_address ipa neighbor_ip of
                  None \<Rightarrow> enqueue_neighbors ipa ignored_networks device_params attempted rest queue
                | Some ip_addr \<Rightarrow>
                    if in_ignored ignored_networks ip_addr
                    then enqueue_neighbors ipa ignored_networks device_params attempted rest queue
                    else enqueue_neighbors ipa ignored_networks device_params attempted rest
                           (queue @ [AList.update ''ip'' neighbor_ip device_params]))
          else enqueue_neighbors ipa ignored_networks device_params attempted rest queue)"

text \<open>
  One iteration of the \<open>while\<close> loop after \<open>device_params = discovery_queue.pop(0)\<close>; the
  state \<open>st\<close> has the queue without the popped entry. \<open>ip_address(None)\<close> raises
  \<open>ValueError\<close> as a malformed string does.
\<close>

definition process_device ::
  "('w, 'c) netmiko \<Rightarrow> 'a ipaddress \<Rightarrow> ('a \<Rightarrow> bool) list \<Rightarrow> pydict \<Rightarrow> 'w frontier \<Rightarrow> 'w frontier" where
  "process_device nm ipa ignored_networks device_params st =
     (let device_ip = map_of device_params ''ip'' in
      if device_ip \<in> attempted_ips st then st
      else case (case device_ip of None \<Rightarrow> None
                 | Some a \<Rightarrow> map_option (Pair a) (ip_address ipa a)) of
             None \<Rightarrow> st\<lparr>attempted_ips := insert device_ip (attempted_ips st)\<rparr>
           | Some (a, ip_addr) \<Rightarrow>
               if in_ignored ignored_networks ip_addr
               then st\<lparr>attempted_ips := insert device_ip (attempted_ips st)\<rparr>
               else (case discover_single_device nm device_params (world st) of
                       (device_data, w) \<Rightarrow>
                         (let st = st\<lparr>discovered_devices := AList.update a device_data (discovered_devices st),
                                       attempted_ips := insert device_ip (attempted_ips st),
                                       world := w,
                                       visit_log := visit_log st @ [a]\<rparr>
                          in case dd_neighbors device_data of
                               None \<Rightarrow> st
                             | Some ns \<Rightarrow>
                                 st\<lparr>discovery_queue :=
                                      enqueue_neighbors ipa ignored_networks device_params
                                        (attempted_ips st) ns (discovery_queue st)\<rparr>)))"

text \<open>
  The \<open>while\<close> loop: \<open>while discovery_queue and len(discovered_devices) < max_devices\<close>.
  \<open>None\<close> is a loop that never ends.
\<close>

partial_function (option) discover_loop ::
  "('w, 'c) netmiko \<Rightarrow> 'a ipaddress \<Rightarrow> ('a \<Rightarrow> bool) list \<Rightarrow> int \<Rightarrow> 'w frontier \<Rightarrow> 'w frontier option" where
  "discover_loop nm ipa ignored_networks max_devices st =
     (case discovery_queue st of
        [] \<Rightarrow> Some st
      | device_params # queue \<Rightarrow>
          if int (length (discovered_devices st)) < max_devices
          then discover_loop nm ipa ignored_networks max_devices
                 (process_device nm ipa ignored_networks device_params (st\<lparr>discovery_queue := queue\<rparr>))
          else Some st)"

text \<open>
  The state after at most \<open>k\<close> iterations of the loop (fewer when the loop has ended by
  then): the states a run goes through.
\<close>

fun state_after ::
  "('w, 'c) netmiko \<Rightarrow> 'a ipaddress \<Rightarrow> ('a \<Rightarrow> bool) list \<Rightarrow> int \<Rightarrow> nat \<Rightarrow> 'w frontier \<Rightarrow> 'w frontier" where
  "state_after nm ipa ignored_networks max_devices 0 st = st"
| "state_after nm ipa ignored_networks max_devices (Suc k) st =
     (case discovery_queue st of
        [] \<Rightarrow> st
      | device_params # queue \<Rightarrow>
          if int (length (discovered_devices st)) < max_devices
          then state_after nm ipa ignored_networks max_devices k
                 (process_device nm ipa ignored_networks device_params (st\<lparr>discovery_queue := queue\<rparr>))
          else st)"

definition initial_frontier :: "pydict list \<Rightarrow> 'w \<Rightarrow> 'w frontier" where
  "initial_frontier seed_devices w =
     \<lparr>discovered_devices = [], discovery_queue = seed_devices, attempted_ips = {},
      world = w, visit_log = []\<rparr>"

text \<open>The state in which the loop of \<open>discover_network\<close> ends.\<close>

definition discover_network_run ::
  "('w, 'c) netmiko \<Rightarrow> 'a ipaddress \<Rightarrow> pydict list \<Rightarrow> int \<Rightarrow> string list option \<Rightarrow> 'w
     \<Rightarrow> 'w frontier option" where
  "discover_network_run nm ipa seed_devices max_devices ignore_subnets w =
     discover_loop nm ipa (ignored_networks_of ipa ignore_subnets) max_devices
       (initial_frontier seed_devices w)"

text \<open>\<open>discover_network\<close> returns the dictionary of discovered devices.\<close>

definition discover_network ::
  "('w, 'c) netmiko \<Rightarrow> 'a ipaddress \<Rightarrow> pydict list \<Rightarrow> int \<Rightarrow> string list option \<Rightarrow> 'w
     \<Rightarrow> (string \<times> device_data) list option" where
  "discover_network nm ipa seed_devices max_devices ignore_subnets w =
     map_option discovered_devices
       (discover_network_run nm ipa seed_devices max_devices ignore_subnets w)"

text \<open>
  An address matches a configured excluded range: it parses and lies in one of the
  ignored networks.
\<close>

definition excluded :: "'a ipaddress \<Rightarrow> ('a \<Rightarrow> bool) list \<Rightarrow> string \<Rightarrow> bool" where
  "excluded ipa ignored_networks a =
     (case ip_address ipa a of None \<Rightarrow> False | Some ip_addr \<Rightarrow> in_ignored ignored_networks ip_addr)"

section \<open>A concrete network, for evaluating the definitions\<close>

text \<open>
  The IPv4 part of \<open>ipaddress\<close>: an address is four decimal octets without leading
  zeros, a network is an address and a prefix length whose host bits are zero.
\<close>

fun split_on :: "char \<Rightarrow> string \<Rightarrow> string list" where
  "split_on sep [] = [[]]"
| "split_on sep (c # cs) =
     (if c = sep then [] # split_on sep cs
      else case split_on sep cs of [] \<Rightarrow> [[c]] | p # ps \<Rightarrow> (c # p) # ps)"

definition digit_value :: "char \<Rightarrow> int option" where
  "digit_value c = map_of (zip ''0123456789'' [0, 1, 2, 3, 4, 5, 6, 7, 8, 9]) c"

fun decimal :: "int \<Rightarrow> string \<Rightarrow> int option" where
  "decimal acc [] = Some acc"
| "decimal acc (c # cs) =
     (case digit_value c of None \<Rightarrow> None | Some d \<Rightarrow> decimal (10 * acc + d) cs)"

definition octet :: "string \<Rightarrow> int option" where
  "octet s =
     (if s = [] \<or> 3 < length s \<or> (1 < length s \<and> hd s = CHR ''0'') then None
      else case decimal 0 s of None \<Rightarrow> None | Some n \<Rightarrow> if n \<le> 255 then Some n else None)"

definition ipv4_address :: "string \<Rightarrow> int option" where
  "ipv4_address s =
     (case map octet (split_on (CHR ''.'') s) of
        [Some a, Some b, Some c, Some d] \<Rightarrow> Some (((a * 256 + b) * 256 + c) * 256 + d)
      | _ \<Rightarrow> None)"

definition ipv4_network :: "string \<Rightarrow> (int \<Rightarrow> bool) option" where
  "ipv4_network s =
     (case split_on (CHR ''/'') s of
        [a, l] \<Rightarrow>
          (case (ipv4_address a, if l = [] then None else decimal 0 l) of
             (Some base, Some n) \<Rightarrow>
               if n \<le> 32 \<and> base mod 2 ^ nat (32 - n) = 0
               then Some (\<lambda>x. x div 2 ^ nat (32 - n) = base div 2 ^ nat (32 - n))
               else None
           | _ \<Rightarrow> None)
      | [a] \<Rightarrow> map_option (\<lambda>base x. x = base) (ipv4_address a)
      | _ \<Rightarrow> None)"

definition ipv4 :: "int ipaddress" where
  "ipv4 = \<lparr>ip_address = ipv4_address, ip_network = ipv4_network\<rparr>"

text \<open>
  Three devices. 10.0.0.1 answers; its CDP output names SW2 at 10.0.0.2 on two links and
  one entry without an address; its LLDP output names 10.0.0.2 under another name,
  10.0.0.3, and one entry without a system name; \<open>show ip route\<close> fails on it. 10.0.0.2 answers and names 10.0.0.1. Every other
  address times out. The state of the world counts the calls made.
\<close>

definition text_of_lines :: "string list \<Rightarrow> string" where
  "text_of_lines ls = concat (map (\<lambda>l. l @ [CHR 0x0A]) ls)"

definition lab_cdp_text :: string where
  "lab_cdp_text = text_of_lines
     [''Device ID: SW2'', ''IP address: 10.0.0.2'', ''Platform: cisco WS-C2960, Capabilities: Switch'',
      ''Interface: Gi0/1, Port ID (outgoing port): Gi0/2'',
      ''-------------------------'',
      ''Device ID: SW2'', ''IP address: 10.0.0.2'',
      ''Interface: Gi0/3, Port ID (outgoing port): Gi0/4'',
      ''-------------------------'',
      ''Device ID: PHONE'', ''Platform: Cisco IP Phone, Capabilities: Host'']"

definition lab_lldp_text :: string where
  "lab_lldp_text = text_of_lines
     [''Device ID: a'', ''System Name: sw2.lab'', ''Management Address: 10.0.0.2'',
      ''Local Interface: Gi0/1'', ''Port ID: Gi0/2'', [], [],
      ''Device ID: b'', ''System Name: SW3'', ''Management Address: 10.0.0.3'',
      ''Local Interface: Gi0/5'', [], [],
      ''Device ID: c'', ''Management Address: 10.0.0.9'']"

definition lab_version_text :: string where
  "lab_version_text = text_of_lines
     [''Cisco IOS Software, C2960 Software, Version 15.0(2)SE, RELEASE'',
      ''SW1 uptime is 1 week'',
      ''cisco WS-C2960 (PowerPC405) processor with 65536K bytes'']"

definition lab_output :: "string \<Rightarrow> string \<Rightarrow> exn + string" where
  "lab_output device command =
     (if device = ''10.0.0.1'' then
        (if command = ''show version'' then Inr lab_version_text
         else if command = ''show cdp neighbors detail'' then Inr lab_cdp_text
         else if command = ''show lldp neighbors detail'' then Inr lab_lldp_text
         else if command = ''show ip route'' then Inl (OtherException ''Pattern not detected'')
         else Inr [])
      else
        (if command = ''show cdp neighbors detail''
         then Inr (text_of_lines [''Device ID: SW1'', ''IP address: 10.0.0.1''])
         else Inr []))"

definition lab :: "(nat, string) netmiko" where
  "lab = \<lparr>ConnectHandler = (\<lambda>device_params w.
             case map_of device_params ''ip'' of
               None \<Rightarrow> (Inl (OtherException ''no host''), Suc w)
             | Some a \<Rightarrow>
                 if a = ''10.0.0.1'' \<or> a = ''10.0.0.2'' then (Inr a, Suc w)
                 else (Inl (NetmikoTimeoutException ''timed out''), Suc w)),
          send_command = (\<lambda>c command w. (lab_output c command, Suc w)),
          send_command_textfsm = (\<lambda>c command w. (map_sum id Str (lab_output c command), Suc w)),
          connection_disconnect = (\<lambda>c w. (Inr (), Suc w)),
          now_isoformat = (\<lambda>w. (''2024-01-01T00:00:00'', Suc w))\<rparr>"

definition lab_seed :: pydict where
  "lab_seed = [(''device_type'', ''cisco_ios''), (''ip'', ''10.0.0.1''), (''username'', ''admin'')]"

text \<open>
  The neighbor lists of the scenario of the specification: CDP names SW2 at 10.0.0.2; LLDP
  names 10.0.0.2 under another identifier, and 10.0.0.3.
\<close>

definition scenario_cdp :: "pydict list" where
  "scenario_cdp = [[(''device_id'', ''SW2''), (''ip'', ''10.0.0.2'')]]"

definition scenario_lldp :: "pydict list" where
  "scenario_lldp = [[(''device_id'', ''sw2.lab''), (''ip'', ''10.0.0.2'')],
                    [(''device_id'', ''SW3''), (''ip'', ''10.0.0.3'')]]"

text \<open>
  What holds of the frontier at the head of every iteration of the loop: the keys of
  \<open>discovered_devices\<close> are distinct, attempted and not excluded, and they are the visit log;
  the store has no more entries than \<open>max_devices\<close> (none when that is negative); the
  neighbors stored have a device identifier and an address; and every queued entry is a
  seed or has an address.
\<close>

definition frontier_inv ::
  "'a ipaddress \<Rightarrow> ('a \<Rightarrow> bool) list \<Rightarrow> int \<Rightarrow> pydict list \<Rightarrow> 'w frontier \<Rightarrow> bool" where
  "frontier_inv ipa ignored_networks max_devices seed_devices st \<longleftrightarrow>
     distinct (map fst (discovered_devices st))
     \<and> Some ` fst ` set (discovered_devices st) \<subseteq> attempted_ips st
     \<and> int (length (discovered_devices st)) \<le> max 0 max_devices
     \<and> distinct (visit_log st)
     \<and> Some ` set (visit_log st) \<subseteq> attempted_ips st
     \<and> visit_log st = map fst (discovered_devices st)
     \<and> (\<forall>a\<in>fst ` set (discovered_devices st). \<not> excluded ipa ignored_networks a)
     \<and> (\<forall>x\<in>set (discovered_devices st).
           \<forall>ns. dd_neighbors (snd x) = Some ns \<longrightarrow> (\<forall>n\<in>set ns. essential n))
     \<and> (\<forall>entry\<in>set (discovery_queue st).
           entry \<in> set seed_devices \<or> truthy (map_of entry ''ip''))"

declare discover_loop.simps [code]

section \<open>The patterns of the parser\<close>

text \<open>
  A match never leaves more input than it was given, and a match of one of the two
  separators is never empty: \<open>re_split\<close> always takes the branch that goes on after the
  match.
\<close>

lemma rep_upto_shorter:
  assumes "\<And>s g rest g'. (rest, g') \<in> set (m s g) \<Longrightarrow> length rest \<le> length s"
  shows "(rest, g') \<in> set (rep_upto n m s g) \<Longrightarrow> length rest \<le> length s"
proof (induction n arbitrary: s g)
  case 0
  then show ?case by simp
next
  case (Suc n)
  from Suc.prems consider "(rest, g') = (s, g)"
    | s1 g1 where "(s1, g1) \<in> set (m s g)" "(rest, g') \<in> set (rep_upto n m s1 g1)"
    by auto
  then show ?case
  proof cases
    case 1
    then show ?thesis by simp
  next
    case 2
    from Suc.IH[OF 2(2)] assms[OF 2(1)] show ?thesis by simp
  qed
qed

lemma match_at_shorter:
  "(rest, g') \<in> set (match_at r s g) \<Longrightarrow> length rest \<le> length s"
proof (induction r arbitrary: s g rest g')
  case (Lit l)
  then show ?case by (auto split: if_splits)
next
  case (Cls k)
  then show ?case by (auto split: list.splits if_splits)
next
  case (Rep k lo greedy)
  then show ?case by (auto simp: Let_def split: if_splits)
next
  case (Seq a b)
  from Seq.prems obtain s1 g1 where "(s1, g1) \<in> set (match_at a s g)" "(rest, g') \<in> set (match_at b s1 g1)"
    by auto
  with Seq.IH(1)[of s1 g1 s g] Seq.IH(2)[of rest g' s1 g1] show ?case by simp
next
  case (Alt a b)
  then show ?case by auto
next
  case (Group r)
  then show ?case by auto
next
  case (Upto n r)
  from Upto.prems have "(rest, g') \<in> set (rep_upto n (match_at r) s g)" by simp
  from rep_upto_shorter[OF _ this] Upto.IH show ?case by blast
qed

lemma re_search_consumes:
  assumes "\<And>s rest g. (rest, g) \<in> set (match_at r s None) \<Longrightarrow> length rest < length s"
  shows "re_search r s = Some (pre, rest, g) \<Longrightarrow> length rest < length s"
proof (induction s arbitrary: pre)
  case Nil
  then show ?case
    using assms[of _ _ "[]"] by (auto split: list.splits)
next
  case (Cons c cs)
  show ?case
  proof (cases "match_at r (c # cs) None")
    case Nil
    with Cons.prems obtain pre' where "re_search r cs = Some (pre', rest, g)"
      by (auto split: option.splits)
    from Cons.IH[OF this] show ?thesis by simp
  next
    case (Cons m ms)
    with Cons.prems have "m = (rest, g)"
      by (cases m) auto
    with Cons have "(rest, g) \<in> set (match_at r (c # cs) None)"
      by simp
    from assms[OF this] show ?thesis .
  qed
qed

lemma cdp_separator_consumes:
  "re_search cdp_separator_re s = Some (pre, rest, g) \<Longrightarrow> length rest < length s"
proof (rule re_search_consumes)
  fix s :: string and rest g
  assume "(rest, g) \<in> set (match_at cdp_separator_re s None)"
  then obtain i where "rest = drop i s" "3 \<le> i" "i \<le> length (takeWhile (in_class (Chars ''-'')) s)"
    by (auto simp: cdp_separator_re_def Let_def)
  moreover have "length (takeWhile (in_class (Chars ''-'')) s) \<le> length s"
    by (rule length_takeWhile_le)
  ultimately show "length rest < length s"
    by simp
qed

lemma lldp_separator_consumes:
  "re_search lldp_separator_re s = Some (pre, rest, g) \<Longrightarrow> length rest < length s"
proof (rule re_search_consumes)
  fix s :: string and rest g
  assume m: "(rest, g) \<in> set (match_at lldp_separator_re s None)"
  let ?tail = "seq [Cls CR_LF, Lit ''Device ID:'', Rep Dot 1 False, Cls CR_LF]"
  from m obtain c cs where s: "s = c # cs" and "(rest, g) \<in> set (match_at ?tail cs None)"
    by (cases s) (auto simp: lldp_separator_re_def split: if_splits)
  from match_at_shorter[OF this(2)] s show "length rest < length s"
    by simp
qed

lemma re_split_cdp:
  "re_split cdp_separator_re s =
     (case re_search cdp_separator_re s of
        None \<Rightarrow> [s]
      | Some (pre, rest, g) \<Rightarrow> pre # re_split cdp_separator_re rest)"
  using cdp_separator_consumes[of s] by (subst re_split.simps) (auto split: option.splits)

lemma re_split_lldp:
  "re_split lldp_separator_re s =
     (case re_search lldp_separator_re s of
        None \<Rightarrow> [s]
      | Some (pre, rest, g) \<Rightarrow> pre # re_split lldp_separator_re rest)"
  using lldp_separator_consumes[of s] by (subst re_split.simps) (auto split: option.splits)

text \<open>
  In every pattern that extracts a field, group 1 takes part in every match: the search
  gives no group only when there is no match, and \<open>m.group(1).strip()\<close> is always the
  strip of a string.
\<close>

lemma rep_upto_keeps_group:
  assumes "\<And>s g rest g'. (rest, g') \<in> set (m s g) \<Longrightarrow> g \<noteq> None \<Longrightarrow> g' \<noteq> None"
  shows "(rest, g') \<in> set (rep_upto n m s g) \<Longrightarrow> g \<noteq> None \<Longrightarrow> g' \<noteq> None"
proof (induction n arbitrary: s g)
  case 0
  then show ?case by simp
next
  case (Suc n)
  from Suc.prems(1) consider "(rest, g') = (s, g)"
    | s1 g1 where "(s1, g1) \<in> set (m s g)" "(rest, g') \<in> set (rep_upto n m s1 g1)"
    by auto
  then show ?case
  proof cases
    case 1
    with Suc.prems(2) show ?thesis by simp
  next
    case 2
    from assms[OF 2(1) Suc.prems(2)] Suc.IH[OF 2(2)] show ?thesis by simp
  qed
qed

lemma match_at_keeps_group:
  "(rest, g') \<in> set (match_at r s g) \<Longrightarrow> g \<noteq> None \<Longrightarrow> g' \<noteq> None"
proof (induction r arbitrary: s g rest g')
  case (Lit l)
  then show ?case by (auto split: if_splits)
next
  case (Cls k)
  then show ?case by (auto split: list.splits if_splits)
next
  case (Rep k lo greedy)
  then show ?case by (auto simp: Let_def split: if_splits)
next
  case (Seq a b)
  from Seq.prems(1) obtain s1 g1 where "(s1, g1) \<in> set (match_at a s g)" "(rest, g') \<in> set (match_at b s1 g1)"
    by auto
  with Seq.IH(1)[of s1 g1 s g] Seq.IH(2)[of rest g' s1 g1] Seq.prems(2) show ?case by simp
next
  case (Alt a b)
  then show ?case by auto
next
  case (Group r)
  then show ?case by auto
next
  case (Upto n r)
  from Upto.prems have "(rest, g') \<in> set (rep_upto n (match_at r) s g)" by simp
  from rep_upto_keeps_group[OF _ this Upto.prems(2)] Upto.IH show ?case by blast
qed

lemma match_at_captures:
  "captures r \<Longrightarrow> (rest, g') \<in> set (match_at r s g) \<Longrightarrow> g' \<noteq> None"
proof (induction r arbitrary: s g rest g')
  case (Seq a b)
  from Seq.prems(2) obtain s1 g1 where m: "(s1, g1) \<in> set (match_at a s g)" "(rest, g') \<in> set (match_at b s1 g1)"
    by auto
  show ?case
  proof (cases "captures b")
    case True
    from Seq.IH(2)[OF True m(2)] show ?thesis .
  next
    case False
    with Seq.prems(1) have "captures a" by simp
    from Seq.IH(1)[OF this m(1)] have "g1 \<noteq> None" .
    from match_at_keeps_group[OF m(2) this] show ?thesis .
  qed
next
  case (Alt a b)
  then show ?case by auto
next
  case (Group r)
  then show ?case by auto
qed simp_all

lemma re_search_captures:
  "captures r \<Longrightarrow> re_search r s = Some (pre, rest, g) \<Longrightarrow> g \<noteq> None"
proof (induction s arbitrary: pre)
  case Nil
  then show ?case
    using match_at_captures[of r rest g "[]" None] by (auto split: list.splits)
next
  case (Cons c cs)
  show ?case
  proof (cases "match_at r (c # cs) None")
    case Nil
    with Cons.prems(2) obtain pre' where "re_search r cs = Some (pre', rest, g)"
      by (auto split: option.splits)
    from Cons.IH[OF Cons.prems(1) this] show ?thesis .
  next
    case (Cons m ms)
    with Cons.prems(2) have "m = (rest, g)"
      by (cases m) auto
    with Cons have "(rest, g) \<in> set (match_at r (c # cs) None)"
      by simp
    from match_at_captures[OF Cons.prems(1) this] show ?thesis .
  qed
qed

lemma field_patterns_capture:
  "captures cdp_device_id_re" "captures cdp_ip_re" "captures cdp_platform_re"
  "captures cdp_local_int_re" "captures cdp_remote_int_re"
  "captures lldp_device_id_re" "captures lldp_ip_re" "captures lldp_local_int_re"
  "captures lldp_remote_int_re"
  "captures version_model_re" "captures version_ios_re" "captures version_hostname_re"
  by (simp_all add: cdp_device_id_re_def cdp_ip_re_def cdp_platform_re_def cdp_local_int_re_def
      cdp_remote_int_re_def lldp_device_id_re_def lldp_ip_re_def lldp_local_int_re_def
      lldp_remote_int_re_def version_model_re_def version_ios_re_def version_hostname_re_def)

lemma search_group1_None_iff:
  "captures r \<Longrightarrow> search_group1 r s = None \<longleftrightarrow> re_search r s = None"
  using re_search_captures[of r s] by (auto simp: search_group1_def split: option.splits)

section \<open>The parser on structured input\<close>

text \<open>
  C10. On structured input \<open>parse_version\<close> returns a dictionary as it is and the first
  element of a list that has one; an empty list is returned as the empty list itself, so
  the result is not a dictionary there.
\<close>

theorem parse_version_structured_input:
  "parse_version (PyDict d) = PyDict d \<and> parse_version (PyList (x # xs)) = PyDict x
   \<and> parse_version (PyList []) = PyList [] \<and> \<not> is_dict (parse_version (PyList []))"
  by simp

text \<open>C10 at a version record and at a list of two.\<close>

theorem parse_version_structured_input_witness:
  "parse_version (PyDict [(''version'', ''15.0'')]) = PyDict [(''version'', ''15.0'')]
   \<and> parse_version (PyList [[(''version'', ''15.0'')], [(''version'', ''12.2'')]])
       = PyDict [(''version'', ''15.0'')]
   \<and> parse_version (PyList []) = PyList []
   \<and> \<not> is_dict (parse_version (PyList []))"
  using parse_version_structured_input[of "[(''version'', ''15.0'')]" "[(''version'', ''15.0'')]"
      "[[(''version'', ''12.2'')]]"]
  by simp

section \<open>The neighbor reconciler\<close>

text \<open>
  The loop appends to the list it starts from a subsequence of the LLDP list: the records
  whose address is not in the set, which also covers every address of the LLDP list.
\<close>

lemma merge_lldp_shape:
  "\<exists>ys. merge_lldp lldp all ips = all @ ys \<and> subseq ys lldp
        \<and> (\<forall>y\<in>set ys. map_of y ''ip'' \<notin> ips)
        \<and> (\<forall>n\<in>set lldp. map_of n ''ip'' \<in> ips \<union> (\<lambda>y. map_of y ''ip'') ` set ys)"
proof (induction lldp arbitrary: all ips)
  case Nil
  then show ?case by simp
next
  case (Cons n lldp)
  show ?case
  proof (cases "map_of n ''ip'' \<in> ips")
    case True
    from Cons.IH[of all ips] obtain ys where
      ys: "merge_lldp lldp all ips = all @ ys" "subseq ys lldp"
          "\<forall>y\<in>set ys. map_of y ''ip'' \<notin> ips"
          "\<forall>n\<in>set lldp. map_of n ''ip'' \<in> ips \<union> (\<lambda>y. map_of y ''ip'') ` set ys"
      by blast
    show ?thesis
      using True ys by (intro exI[of _ ys]) auto
  next
    case False
    from Cons.IH[of "all @ [n]" "insert (map_of n ''ip'') ips"] obtain ys where
      ys: "merge_lldp lldp (all @ [n]) (insert (map_of n ''ip'') ips) = (all @ [n]) @ ys"
          "subseq ys lldp"
          "\<forall>y\<in>set ys. map_of y ''ip'' \<notin> insert (map_of n ''ip'') ips"
          "\<forall>m\<in>set lldp. map_of m ''ip'' \<in> insert (map_of n ''ip'') ips \<union> (\<lambda>y. map_of y ''ip'') ` set ys"
      by blast
    show ?thesis
      using False ys by (intro exI[of _ "n # ys"]) auto
  qed
qed

text \<open>
  C2, as amended. For every pair of neighbor lists and every non-empty address that a
  record of the CDP list has (so also every address present in both lists), the records of
  the merged list with that address are exactly the records of the CDP list with that
  address, in their order: no LLDP record with that address is kept. The merged list is
  the CDP list as it is, followed by a subsequence of the LLDP list in LLDP order, none of
  whose records has the address of a CDP record.
\<close>

theorem merge_neighbors_cdp_priority:
  assumes "a \<noteq> []" and "Some a \<in> (\<lambda>n. map_of n ''ip'') ` set cdp"
  shows "filter (\<lambda>n. map_of n ''ip'' = Some a) (merge_neighbors cdp lldp)
           = filter (\<lambda>n. map_of n ''ip'' = Some a) cdp
         \<and> (\<exists>ys. merge_neighbors cdp lldp = cdp @ ys \<and> subseq ys lldp
                 \<and> (\<forall>y\<in>set ys. \<forall>c\<in>set cdp. truthy (map_of c ''ip'') \<longrightarrow> map_of y ''ip'' \<noteq> map_of c ''ip''))"
proof -
  define ips where "ips = set (map (\<lambda>n. map_of n ''ip'') (filter (\<lambda>n. truthy (map_of n ''ip'')) cdp))"
  have merged: "merge_neighbors cdp lldp = merge_lldp lldp cdp ips"
    by (simp add: merge_neighbors_def ips_def)
  obtain ys where ys: "merge_lldp lldp cdp ips = cdp @ ys" "subseq ys lldp"
      "\<forall>y\<in>set ys. map_of y ''ip'' \<notin> ips"
    using merge_lldp_shape[of lldp cdp ips] by blast
  have ips_iff: "\<And>x. x \<in> ips \<longleftrightarrow> (\<exists>c\<in>set cdp. truthy (map_of c ''ip'') \<and> x = map_of c ''ip'')"
    unfolding ips_def by auto
  from assms(2) obtain c0 where c0: "c0 \<in> set cdp" "map_of c0 ''ip'' = Some a"
    by force
  have in_ips: "Some a \<in> ips"
    unfolding ips_iff using c0 assms(1) by (intro bexI[of _ c0]) simp_all
  have none: "filter (\<lambda>n. map_of n ''ip'' = Some a) ys = []"
    unfolding filter_empty_conv using ys(3) in_ips by metis
  have apart: "\<forall>y\<in>set ys. \<forall>c\<in>set cdp. truthy (map_of c ''ip'') \<longrightarrow> map_of y ''ip'' \<noteq> map_of c ''ip''"
    using ys(3) unfolding ips_iff by metis
  have "filter (\<lambda>n. map_of n ''ip'' = Some a) (merge_neighbors cdp lldp)
           = filter (\<lambda>n. map_of n ''ip'' = Some a) cdp"
    unfolding merged ys(1) using none by simp
  moreover have "\<exists>ys. merge_neighbors cdp lldp = cdp @ ys \<and> subseq ys lldp
                 \<and> (\<forall>y\<in>set ys. \<forall>c\<in>set cdp. truthy (map_of c ''ip'') \<longrightarrow> map_of y ''ip'' \<noteq> map_of c ''ip'')"
    unfolding merged using ys(1,2) apart by blast
  ultimately show ?thesis by blast
qed

text \<open>
  C2 on the scenario: 10.0.0.2 is in both lists, and the merged list has the CDP record
  for it and no other.
\<close>

theorem merge_neighbors_cdp_priority_witness:
  "Some ''10.0.0.2'' \<in> (\<lambda>n. map_of n ''ip'') ` set scenario_cdp
   \<and> Some ''10.0.0.2'' \<in> (\<lambda>n. map_of n ''ip'') ` set scenario_lldp
   \<and> filter (\<lambda>n. map_of n ''ip'' = Some ''10.0.0.2'') (merge_neighbors scenario_cdp scenario_lldp)
       = [[(''device_id'', ''SW2''), (''ip'', ''10.0.0.2'')]]"
proof -
  have a: "''10.0.0.2'' \<noteq> []" by simp
  have b: "Some ''10.0.0.2'' \<in> (\<lambda>n. map_of n ''ip'') ` set scenario_cdp"
    by (simp add: scenario_cdp_def)
  have c: "Some ''10.0.0.2'' \<in> (\<lambda>n. map_of n ''ip'') ` set scenario_lldp"
    by (simp add: scenario_lldp_def)
  have d: "filter (\<lambda>n. map_of n ''ip'' = Some ''10.0.0.2'') scenario_cdp = [[(''device_id'', ''SW2''), (''ip'', ''10.0.0.2'')]]"
    by (simp add: scenario_cdp_def)
  from merge_neighbors_cdp_priority[OF a b, of scenario_lldp] d b c show ?thesis
    by simp
qed

text \<open>
  C2 as stated fails when the CDP list has two records with one address (two links to
  one neighbor): the merged list keeps both.
\<close>

theorem merge_two_cdp_records_counterexample:
  "Some ''10.0.0.2'' \<in> set (map (\<lambda>n. map_of n ''ip'')
       [[(''device_id'', ''SW2''), (''ip'', ''10.0.0.2''), (''local_interface'', ''Gi0/1'')],
        [(''device_id'', ''SW2''), (''ip'', ''10.0.0.2''), (''local_interface'', ''Gi0/3'')]])
   \<and> Some ''10.0.0.2'' \<in> set (map (\<lambda>n. map_of n ''ip'') [[(''device_id'', ''sw2.lab''), (''ip'', ''10.0.0.2'')]])
   \<and> length (filter (\<lambda>n. map_of n ''ip'' = Some ''10.0.0.2'')
       (merge_neighbors
          [[(''device_id'', ''SW2''), (''ip'', ''10.0.0.2''), (''local_interface'', ''Gi0/1'')],
           [(''device_id'', ''SW2''), (''ip'', ''10.0.0.2''), (''local_interface'', ''Gi0/3'')]]
          [[(''device_id'', ''sw2.lab''), (''ip'', ''10.0.0.2'')]])) = 2"
  by code_simp

section \<open>Running the commands\<close>

lemma execute_loop_append:
  "execute_loop nm c po (xs @ ys) r w =
     (case execute_loop nm c po xs r w of (r', w') \<Rightarrow> execute_loop nm c po ys r' w')"
  by (induction xs arbitrary: r w) (auto split: prod.splits sum.splits)

lemma execute_loop_keys:
  "fst ` set (fst (execute_loop nm c po cmds r w)) = set cmds \<union> fst ` set r"
  by (induction cmds arbitrary: r w) (auto split: prod.splits sum.splits simp: dom_update)

lemma execute_loop_other:
  "k \<notin> set cmds \<Longrightarrow> map_of (fst (execute_loop nm c po cmds r w)) k = map_of r k"
  by (induction cmds arbitrary: r w) (auto split: prod.splits sum.splits simp: update_conv')

text \<open>
  C9. The dictionary that \<open>execute_commands\<close> returns has an entry for every command of
  the list. When a command fails, after the commands before it have run, the error is
  stored under its key as the string \<open>ERROR: \<close> and the message, the commands after it
  are run from there and get their entries, and the error entry is in the result unless
  the same command is run again later.
\<close>

theorem execute_commands_failure_inline:
  "fst ` set (fst (execute_commands nm c commands po w)) = set commands \<and>
   (execute_commands nm c before po w = (r1, w1) \<and> send nm c po command w1 = (Inl e, w2) \<longrightarrow>
      execute_commands nm c (before @ command # after) po w
        = execute_loop nm c po after (AList.update command (Str (''ERROR: '' @ str_exn e)) r1) w2
      \<and> set after \<subseteq> fst ` set (fst (execute_commands nm c (before @ command # after) po w))
      \<and> (command \<notin> set after \<longrightarrow>
           map_of (fst (execute_commands nm c (before @ command # after) po w)) command
             = Some (Str (''ERROR: '' @ str_exn e))))"
proof -
  have keys: "\<And>cs. fst ` set (fst (execute_commands nm c cs po w)) = set cs"
    by (simp add: execute_commands_def execute_loop_keys)
  show ?thesis
    using keys[of commands] keys[of "before @ command # after"]
    by (auto simp: execute_commands_def execute_loop_append execute_loop_other update_conv')
qed

text \<open>
  C9 on the device 10.0.0.1, where \<open>show ip route\<close> fails between two commands that
  succeed.
\<close>

theorem execute_commands_failure_inline_witness:
  "execute_commands lab ''10.0.0.1'' [''show version''] False 0 = ([(''show version'', Str lab_version_text)], 1)
   \<and> send lab ''10.0.0.1'' False ''show ip route'' 1 = (Inl (OtherException ''Pattern not detected''), 2)
   \<and> map_of (fst (execute_commands lab ''10.0.0.1'' [''show version'', ''show ip route'', ''show interfaces''] False 0))
        ''show ip route'' = Some (Str ''ERROR: Pattern not detected'')
   \<and> fst ` set (fst (execute_commands lab ''10.0.0.1'' [''show version'', ''show ip route'', ''show interfaces''] False 0))
        = {''show version'', ''show ip route'', ''show interfaces''}"
proof -
  have a: "execute_commands lab ''10.0.0.1'' [''show version''] False 0 = ([(''show version'', Str lab_version_text)], 1)"
    by (simp add: execute_commands_def send_def lab_def lab_output_def)
  have b: "send lab ''10.0.0.1'' False ''show ip route'' 1 = (Inl (OtherException ''Pattern not detected''), 2)"
    by (simp add: send_def lab_def lab_output_def)
  have c: "''show ip route'' \<notin> set [''show interfaces'']"
    by simp
  note t = execute_commands_failure_inline[of lab "''10.0.0.1''"
      "[''show version''] @ ''show ip route'' # [''show interfaces'']" False 0
      "[''show version'']" "[(''show version'', Str lab_version_text)]" 1 "''show ip route''"
      "OtherException ''Pattern not detected''" 2 "[''show interfaces'']"]
  from t a b c have
    "map_of (fst (execute_commands lab ''10.0.0.1'' ([''show version''] @ ''show ip route'' # [''show interfaces'']) False 0))
        ''show ip route'' = Some (Str (''ERROR: '' @ str_exn (OtherException ''Pattern not detected'')))"
    by blast
  moreover from t have
    "fst ` set (fst (execute_commands lab ''10.0.0.1'' ([''show version''] @ ''show ip route'' # [''show interfaces'']) False 0))
       = set ([''show version''] @ ''show ip route'' # [''show interfaces''])"
    by blast
  ultimately show ?thesis
    using a b by simp
qed

section \<open>The parser on text\<close>

text \<open>
  The loop over the blocks keeps, in order, the dictionaries of the blocks that are not
  blank and whose dictionary has a device identifier and an address.
\<close>

lemma parse_cdp_blocks_filter:
  "parse_cdp_blocks blocks acc =
     acc @ map cdp_block_neighbor
             (filter (\<lambda>b. strip b \<noteq> [] \<and> essential (cdp_block_neighbor b)) blocks)"
  by (induction blocks arbitrary: acc) (simp_all add: Let_def)

lemma parse_lldp_blocks_filter:
  "parse_lldp_blocks blocks acc =
     acc @ map lldp_block_neighbor
             (filter (\<lambda>b. strip b \<noteq> [] \<and> essential (lldp_block_neighbor b)) blocks)"
  by (induction blocks arbitrary: acc) (simp_all add: Let_def)

lemma map_of_extract_field:
  "map_of (extract_field key r block neighbor) k =
     (if k = key then (case search_group1 r block of None \<Rightarrow> map_of neighbor k | Some g \<Rightarrow> Some (strip g))
      else map_of neighbor k)"
  by (simp add: extract_field_def update_conv' split: option.splits)

lemma cdp_block_neighbor_fields:
  "map_of (cdp_block_neighbor b) ''device_id'' = map_option strip (search_group1 cdp_device_id_re b)"
  "map_of (cdp_block_neighbor b) ''ip'' = map_option strip (search_group1 cdp_ip_re b)"
  "map_of (cdp_block_neighbor b) ''platform'' = map_option strip (search_group1 cdp_platform_re b)"
  "map_of (cdp_block_neighbor b) ''local_interface'' = map_option strip (search_group1 cdp_local_int_re b)"
  "map_of (cdp_block_neighbor b) ''remote_interface'' = map_option strip (search_group1 cdp_remote_int_re b)"
  by (simp_all add: cdp_block_neighbor_def map_of_extract_field split: option.splits)

lemma lldp_block_neighbor_fields:
  "map_of (lldp_block_neighbor b) ''device_id'' = map_option strip (search_group1 lldp_device_id_re b)"
  "map_of (lldp_block_neighbor b) ''ip'' = map_option strip (search_group1 lldp_ip_re b)"
  "map_of (lldp_block_neighbor b) ''local_interface'' = map_option strip (search_group1 lldp_local_int_re b)"
  "map_of (lldp_block_neighbor b) ''remote_interface'' = map_option strip (search_group1 lldp_remote_int_re b)"
  by (simp_all add: lldp_block_neighbor_def map_of_extract_field split: option.splits)

lemma parse_cdp_text_essential:
  "parse_cdp_neighbors (Str t) = Inr ns \<Longrightarrow> n \<in> set ns \<Longrightarrow> essential n"
  by (auto simp: parse_cdp_blocks_filter)

lemma parse_lldp_text_essential:
  "parse_lldp_neighbors (Str t) = Inr ns \<Longrightarrow> n \<in> set ns \<Longrightarrow> essential n"
  by (auto simp: parse_lldp_blocks_filter)

text \<open>
  C4. For every text and both protocols the parser returns a list and raises nothing. A
  block of the text from which no device identifier or no address is extracted (no match,
  or a match that is blank once stripped) contributes no record: the result is the result
  for the other blocks. Every field of the dictionary of a block is what its own pattern
  finds in the block, stripped, and is absent when that pattern finds nothing, whatever
  the other patterns find.
\<close>

theorem blocks_without_id_or_address_dropped:
  "(\<exists>ns. parse_cdp_neighbors (Str t) = Inr ns) \<and> (\<exists>ns. parse_lldp_neighbors (Str t) = Inr ns)
   \<and> (re_split cdp_separator_re t = bs1 @ b # bs2
        \<and> (\<not> truthy (map_option strip (search_group1 cdp_device_id_re b))
             \<or> \<not> truthy (map_option strip (search_group1 cdp_ip_re b)))
      \<longrightarrow> parse_cdp_neighbors (Str t) = Inr (parse_cdp_blocks (bs1 @ bs2) []))
   \<and> (re_split lldp_separator_re t = bs1 @ b # bs2
        \<and> (\<not> truthy (map_option strip (search_group1 lldp_device_id_re b))
             \<or> \<not> truthy (map_option strip (search_group1 lldp_ip_re b)))
      \<longrightarrow> parse_lldp_neighbors (Str t) = Inr (parse_lldp_blocks (bs1 @ bs2) []))
   \<and> map_of (cdp_block_neighbor b) ''device_id'' = map_option strip (search_group1 cdp_device_id_re b)
   \<and> map_of (cdp_block_neighbor b) ''ip'' = map_option strip (search_group1 cdp_ip_re b)
   \<and> map_of (cdp_block_neighbor b) ''platform'' = map_option strip (search_group1 cdp_platform_re b)
   \<and> map_of (cdp_block_neighbor b) ''local_interface'' = map_option strip (search_group1 cdp_local_int_re b)
   \<and> map_of (cdp_block_neighbor b) ''remote_interface'' = map_option strip (search_group1 cdp_remote_int_re b)
   \<and> map_of (lldp_block_neighbor b) ''device_id'' = map_option strip (search_group1 lldp_device_id_re b)
   \<and> map_of (lldp_block_neighbor b) ''ip'' = map_option strip (search_group1 lldp_ip_re b)
   \<and> map_of (lldp_block_neighbor b) ''local_interface'' = map_option strip (search_group1 lldp_local_int_re b)
   \<and> map_of (lldp_block_neighbor b) ''remote_interface'' = map_option strip (search_group1 lldp_remote_int_re b)"
proof -
  have cdp: "parse_cdp_neighbors (Str t) = Inr (parse_cdp_blocks (bs1 @ bs2) [])"
    if "re_split cdp_separator_re t = bs1 @ b # bs2"
      and "\<not> truthy (map_option strip (search_group1 cdp_device_id_re b))
             \<or> \<not> truthy (map_option strip (search_group1 cdp_ip_re b))"
  proof -
    from that(2) have "\<not> essential (cdp_block_neighbor b)"
      by (simp add: essential_def cdp_block_neighbor_fields)
    with that(1) show ?thesis
      by (simp add: parse_cdp_blocks_filter)
  qed
  have lldp: "parse_lldp_neighbors (Str t) = Inr (parse_lldp_blocks (bs1 @ bs2) [])"
    if "re_split lldp_separator_re t = bs1 @ b # bs2"
      and "\<not> truthy (map_option strip (search_group1 lldp_device_id_re b))
             \<or> \<not> truthy (map_option strip (search_group1 lldp_ip_re b))"
  proof -
    from that(2) have "\<not> essential (lldp_block_neighbor b)"
      by (simp add: essential_def lldp_block_neighbor_fields)
    with that(1) show ?thesis
      by (simp add: parse_lldp_blocks_filter)
  qed
  show ?thesis
    using cdp lldp by (simp add: cdp_block_neighbor_fields lldp_block_neighbor_fields)
qed

text \<open>
  C4 on the outputs of 10.0.0.1: the third CDP block has no address and the third LLDP
  block has no system name; both are dropped, and the platform of the CDP block is
  extracted all the same.
\<close>

theorem blocks_without_id_or_address_dropped_witness:
  "search_group1 cdp_ip_re (re_split cdp_separator_re lab_cdp_text ! 2) = None
   \<and> parse_cdp_neighbors (Str lab_cdp_text)
       = Inr (parse_cdp_blocks (take 2 (re_split cdp_separator_re lab_cdp_text)) [])
   \<and> search_group1 lldp_device_id_re (re_split lldp_separator_re lab_lldp_text ! 2) = None
   \<and> parse_lldp_neighbors (Str lab_lldp_text)
       = Inr (parse_lldp_blocks (take 2 (re_split lldp_separator_re lab_lldp_text)) [])
   \<and> map_of (cdp_block_neighbor (re_split cdp_separator_re lab_cdp_text ! 2)) ''platform''
       = Some ''Cisco IP Phone''"
proof -
  let ?cs = "re_split cdp_separator_re lab_cdp_text"
  let ?ls = "re_split lldp_separator_re lab_lldp_text"
  have c1: "?cs = take 2 ?cs @ (?cs ! 2) # []" by code_simp
  have c2: "search_group1 cdp_ip_re (?cs ! 2) = None" by code_simp
  have c3: "map_option strip (search_group1 cdp_platform_re (?cs ! 2)) = Some ''Cisco IP Phone''" by code_simp
  have l1: "?ls = take 2 ?ls @ (?ls ! 2) # []" by code_simp
  have l2: "search_group1 lldp_device_id_re (?ls ! 2) = None" by code_simp
  note c = blocks_without_id_or_address_dropped[of lab_cdp_text "take 2 ?cs" "?cs ! 2" "[]"]
  note l = blocks_without_id_or_address_dropped[of lab_lldp_text "take 2 ?ls" "?ls ! 2" "[]"]
  have "parse_cdp_neighbors (Str lab_cdp_text) = Inr (parse_cdp_blocks (take 2 ?cs @ []) [])"
    using c c1 c2 by simp
  moreover have "parse_lldp_neighbors (Str lab_lldp_text) = Inr (parse_lldp_blocks (take 2 ?ls @ []) [])"
    using l l1 l2 by simp
  moreover have "map_of (cdp_block_neighbor (?cs ! 2)) ''platform'' = Some ''Cisco IP Phone''"
    using c c3 by simp
  ultimately show ?thesis
    using c2 l2 by simp
qed

section \<open>Invariants of the discovery loop\<close>

lemma alist_update_new:
  "k \<notin> fst ` set al \<Longrightarrow> AList.update k v al = al @ [(k, v)]"
  by (induction al) auto

lemma length_alist_update:
  "length (AList.update k v al) = (if k \<in> fst ` set al then length al else Suc (length al))"
  by (induction al) auto

text \<open>
  The three ways one iteration goes: the address was attempted before; it is malformed or
  excluded and is marked attempted; or the device is visited.
\<close>

lemma process_device_cases:
  obtains
    (attempted) "map_of p ''ip'' \<in> attempted_ips st"
      "process_device nm ipa nets p st = st"
  | (skipped) "map_of p ''ip'' \<notin> attempted_ips st"
      "\<forall>a. map_of p ''ip'' = Some a \<longrightarrow> ip_address ipa a = None \<or> excluded ipa nets a"
      "process_device nm ipa nets p st = st\<lparr>attempted_ips := insert (map_of p ''ip'') (attempted_ips st)\<rparr>"
  | (visited) a d w where "map_of p ''ip'' = Some a" "Some a \<notin> attempted_ips st"
      "ip_address ipa a \<noteq> None" "\<not> excluded ipa nets a"
      "discover_single_device nm p (world st) = (d, w)"
      "process_device nm ipa nets p st =
         st\<lparr>discovered_devices := AList.update a d (discovered_devices st),
            attempted_ips := insert (Some a) (attempted_ips st),
            world := w,
            visit_log := visit_log st @ [a],
            discovery_queue :=
              (case dd_neighbors d of
                 None \<Rightarrow> discovery_queue st
               | Some ns \<Rightarrow> enqueue_neighbors ipa nets p (insert (Some a) (attempted_ips st)) ns
                             (discovery_queue st))\<rparr>"
proof (cases "map_of p ''ip'' \<in> attempted_ips st")
  case True
  then show ?thesis
    by (intro attempted) (simp_all add: process_device_def)
next
  case False
  show ?thesis
  proof (cases "map_of p ''ip''")
    case None
    with False show ?thesis
      by (intro skipped) (simp_all add: process_device_def)
  next
    case (Some a)
    show ?thesis
    proof (cases "ip_address ipa a")
      case None
      with False Some show ?thesis
        by (intro skipped) (simp_all add: process_device_def)
    next
      case (Some ip_addr)
      note addr = this
      show ?thesis
      proof (cases "in_ignored nets ip_addr")
        case True
        with False \<open>map_of p ''ip'' = Some a\<close> addr show ?thesis
          by (intro skipped) (simp_all add: process_device_def excluded_def)
      next
        case False
        obtain d w where dw: "discover_single_device nm p (world st) = (d, w)"
          by (cases "discover_single_device nm p (world st)")
        from False \<open>map_of p ''ip'' \<notin> attempted_ips st\<close> \<open>map_of p ''ip'' = Some a\<close> addr dw
        show ?thesis
          by (intro visited[of a d w])
             (simp_all add: process_device_def excluded_def split: option.splits)
      qed
    qed
  qed
qed

lemma set_alist_update:
  "x \<in> set (AList.update k v al) \<Longrightarrow> x = (k, v) \<or> x \<in> set al"
  by (induction al) (auto split: if_splits)

text \<open>Without \<open>parse_output\<close> every output is text, so what the parser is given is text.\<close>

lemma execute_loop_plain_text:
  "\<forall>x\<in>set r. \<exists>s. snd x = Str s \<Longrightarrow>
   x \<in> set (fst (execute_loop nm c False cmds r w)) \<Longrightarrow> \<exists>s. snd x = Str s"
proof (induction cmds arbitrary: r w)
  case Nil
  then show ?case by simp
next
  case (Cons cmd cmds)
  obtain res w' where sent: "send nm c False cmd w = (res, w')"
    by (cases "send nm c False cmd w")
  show ?case
  proof (cases res)
    case (Inl e)
    have "\<forall>x\<in>set (AList.update cmd (Str (''ERROR: '' @ str_exn e)) r). \<exists>s. snd x = Str s"
      using Cons.prems(1) by (auto dest!: set_alist_update)
    from Cons.IH[OF this] Cons.prems(2) sent Inl show ?thesis by simp
  next
    case (Inr out)
    then obtain s where "out = Str s"
      using sent by (auto simp: send_def split: prod.splits sum.splits)
    then have "\<forall>x\<in>set (AList.update cmd out r). \<exists>s. snd x = Str s"
      using Cons.prems(1) by (auto dest!: set_alist_update)
    from Cons.IH[OF this] Cons.prems(2) sent Inr show ?thesis by simp
  qed
qed

lemma get_output_plain_text:
  "\<exists>s. get_output (fst (execute_commands nm c cmds False w)) k = Str s"
proof (cases "map_of (fst (execute_commands nm c cmds False w)) k")
  case None
  then show ?thesis by (simp add: get_output_def)
next
  case (Some v)
  then have "(k, v) \<in> set (fst (execute_loop nm c False cmds [] w))"
    by (simp add: execute_commands_def map_of_SomeD)
  from execute_loop_plain_text[OF _ this] Some show ?thesis
    by (simp add: get_output_def)
qed

lemma set_merge_lldp:
  "set (merge_lldp lldp all ips) \<subseteq> set all \<union> set lldp"
proof (induction lldp arbitrary: all ips)
  case Nil
  show ?case by simp
next
  case (Cons n lldp)
  show ?case
    using Cons.IH[of all ips] Cons.IH[of "all @ [n]" "insert (map_of n ''ip'') ips"]
    by auto
qed

lemma set_merge_neighbors:
  "set (merge_neighbors cdp lldp) \<subseteq> set cdp \<union> set lldp"
  using set_merge_lldp by (simp add: merge_neighbors_def)

lemma parse_results_neighbors:
  assumes plain: "\<And>k. \<exists>s. get_output results k = Str s"
    and "dd_neighbors device_data = None"
    and "dd_neighbors (parse_results results device_data) = Some ns"
    and "n \<in> set ns"
  shows "essential n"
proof -
  obtain t1 where t1: "get_output results ''show cdp neighbors detail'' = Str t1"
    using plain by blast
  obtain t2 where t2: "get_output results ''show lldp neighbors detail'' = Str t2"
    using plain by blast
  obtain cdp where cdp: "parse_cdp_neighbors (Str t1) = Inr cdp" by simp
  obtain lldp where lldp: "parse_lldp_neighbors (Str t2) = Inr lldp" by simp
  have "ns = merge_neighbors cdp lldp"
    using assms(2,3) cdp lldp t1 t2
    by (auto simp: parse_results_def Let_def split: prod.splits option.splits)
  with assms(4) have "n \<in> set cdp \<or> n \<in> set lldp"
    using set_merge_neighbors[of cdp lldp] by auto
  then show ?thesis
    using parse_cdp_text_essential[OF cdp] parse_lldp_text_essential[OF lldp] by blast
qed

lemma discover_single_device_neighbors:
  assumes "discover_single_device nm p w = (d, w')" and "dd_neighbors d = Some ns" and "n \<in> set ns"
  shows "essential n"
proof -
  obtain now w1 where now: "now_isoformat nm w = (now, w1)"
    by (cases "now_isoformat nm w")
  obtain conn w2 where conn: "connect nm p w1 = (conn, w2)"
    by (cases "connect nm p w1")
  show ?thesis
  proof (cases conn)
    case None
    with assms(1,2) now conn show ?thesis
      by (auto simp: discover_single_device_def)
  next
    case (Some c)
    obtain results w3 where res: "execute_commands nm c discovery_commands False w2 = (results, w3)"
      by (cases "execute_commands nm c discovery_commands False w2")
    have plain: "\<exists>s. get_output results k = Str s" for k
      using get_output_plain_text[of nm c discovery_commands w2 k] res by simp
    let ?d0 = "\<lparr>dd_items = [(''ip'', case map_of p ''ip'' of None \<Rightarrow> ''unknown'' | Some i \<Rightarrow> i),
                            (''discovered_at'', now)],
                dd_neighbors = None, dd_interfaces = None, dd_raw_output = None\<rparr>"
    have "d = parse_results results ?d0"
      using assms(1) now conn Some res by (simp add: discover_single_device_def)
    with assms(2) have "dd_neighbors (parse_results results ?d0) = Some ns"
      by simp
    from parse_results_neighbors[OF plain _ this assms(3)] show ?thesis
      by simp
  qed
qed

lemma enqueue_entries:
  "entry \<in> set (enqueue_neighbors ipa nets p att ns queue) \<Longrightarrow>
   entry \<in> set queue \<or> (\<exists>n\<in>set ns. truthy (map_of n ''ip'') \<and> map_of entry ''ip'' = map_of n ''ip'')"
proof (induction ns arbitrary: queue)
  case Nil
  then show ?case by simp
next
  case (Cons n ns)
  show ?case
  proof (cases "map_of n ''ip''")
    case None
    with Cons show ?thesis by auto
  next
    case (Some nip)
    show ?thesis
    proof (cases "nip \<noteq> [] \<and> Some nip \<notin> att \<and> Some nip \<notin> set (map (\<lambda>d. map_of d ''ip'') queue)
                  \<and> (\<exists>ip_addr. ip_address ipa nip = Some ip_addr \<and> \<not> in_ignored nets ip_addr)")
      case False
      with Some Cons.prems have "entry \<in> set (enqueue_neighbors ipa nets p att ns queue)"
        by (auto split: option.splits if_splits)
      from Cons.IH[OF this] show ?thesis by auto
    next
      case True
      with Some Cons.prems have
        "entry \<in> set (enqueue_neighbors ipa nets p att ns (queue @ [AList.update ''ip'' nip p]))"
        by auto
      from Cons.IH[OF this] True Some show ?thesis
        by (auto simp: update_conv')
    qed
  qed
qed

text \<open>One iteration keeps the invariant, so every state of a run has it.\<close>

lemma process_device_inv:
  assumes inv: "frontier_inv ipa nets max_devices seeds st"
    and room: "int (length (discovered_devices st)) < max_devices"
  shows "frontier_inv ipa nets max_devices seeds (process_device nm ipa nets p st)"
proof (cases rule: process_device_cases[of p st nm ipa nets])
  case attempted
  with inv show ?thesis by simp
next
  case skipped
  with inv show ?thesis by (auto simp: frontier_inv_def)
next
  case (visited a d w)
  let ?queue = "case dd_neighbors d of
                  None \<Rightarrow> discovery_queue st
                | Some ns \<Rightarrow> enqueue_neighbors ipa nets p (insert (Some a) (attempted_ips st)) ns
                              (discovery_queue st)"
  have stored: "\<forall>x\<in>set (AList.update a d (discovered_devices st)).
                  \<forall>ns. dd_neighbors (snd x) = Some ns \<longrightarrow> (\<forall>n\<in>set ns. essential n)"
  proof
    fix x assume "x \<in> set (AList.update a d (discovered_devices st))"
    then consider "x = (a, d)" | "x \<in> set (discovered_devices st)"
      using set_alist_update by fastforce
    then show "\<forall>ns. dd_neighbors (snd x) = Some ns \<longrightarrow> (\<forall>n\<in>set ns. essential n)"
    proof cases
      case 1
      then show ?thesis
        using discover_single_device_neighbors[OF visited(5)] by simp
    next
      case 2
      then show ?thesis
        using inv by (simp add: frontier_inv_def)
    qed
  qed
  have queued: "\<forall>entry\<in>set ?queue. entry \<in> set seeds \<or> truthy (map_of entry ''ip'')"
  proof
    fix entry assume entry: "entry \<in> set ?queue"
    have old: "\<forall>entry\<in>set (discovery_queue st). entry \<in> set seeds \<or> truthy (map_of entry ''ip'')"
      using inv by (simp add: frontier_inv_def)
    show "entry \<in> set seeds \<or> truthy (map_of entry ''ip'')"
    proof (cases "dd_neighbors d")
      case None
      with entry old show ?thesis by simp
    next
      case (Some ns)
      with entry enqueue_entries[of entry ipa nets p "insert (Some a) (attempted_ips st)" ns "discovery_queue st"]
      have "entry \<in> set (discovery_queue st)
            \<or> (\<exists>n\<in>set ns. truthy (map_of n ''ip'') \<and> map_of entry ''ip'' = map_of n ''ip'')"
        by simp
      with old show ?thesis by auto
    qed
  qed
  have new_key: "a \<notin> fst ` set (discovered_devices st)"
    using inv visited(2) by (auto simp: frontier_inv_def)
  have new_visit: "a \<notin> set (visit_log st)"
    using inv visited(2) by (auto simp: frontier_inv_def)
  have "distinct (map fst (AList.update a d (discovered_devices st)))"
    using inv by (simp add: frontier_inv_def distinct_update)
  moreover have "Some ` fst ` set (AList.update a d (discovered_devices st))
                   \<subseteq> insert (Some a) (attempted_ips st)"
    using inv by (auto simp: frontier_inv_def dom_update)
  moreover have "int (length (AList.update a d (discovered_devices st))) \<le> max 0 max_devices"
    using room new_key by (simp add: length_alist_update)
  moreover have "distinct (visit_log st @ [a])"
    using inv new_visit by (simp add: frontier_inv_def)
  moreover have "Some ` set (visit_log st @ [a]) \<subseteq> insert (Some a) (attempted_ips st)"
    using inv by (auto simp: frontier_inv_def)
  moreover have "\<forall>x\<in>fst ` set (AList.update a d (discovered_devices st)). \<not> excluded ipa nets x"
    using inv visited(4) by (auto simp: frontier_inv_def dom_update)
  moreover have "visit_log st @ [a] = map fst (AList.update a d (discovered_devices st))"
    using inv new_key by (simp add: frontier_inv_def alist_update_new)
  ultimately show ?thesis
    unfolding visited(6) frontier_inv_def using stored queued by simp
qed

lemma frontier_inv_pop:
  "frontier_inv ipa nets max_devices seeds st \<Longrightarrow> discovery_queue st = p # q \<Longrightarrow>
   frontier_inv ipa nets max_devices seeds (st\<lparr>discovery_queue := q\<rparr>)"
  by (simp add: frontier_inv_def)

lemma state_after_inv:
  "frontier_inv ipa nets max_devices seeds st \<Longrightarrow>
   frontier_inv ipa nets max_devices seeds (state_after nm ipa nets max_devices k st)"
proof (induction k arbitrary: st)
  case 0
  then show ?case by simp
next
  case (Suc k)
  show ?case
  proof (cases "discovery_queue st")
    case Nil
    with Suc.prems show ?thesis by simp
  next
    case (Cons p q)
    show ?thesis
    proof (cases "int (length (discovered_devices st)) < max_devices")
      case True
      have "frontier_inv ipa nets max_devices seeds (process_device nm ipa nets p (st\<lparr>discovery_queue := q\<rparr>))"
        using frontier_inv_pop[OF Suc.prems Cons] True by (intro process_device_inv) simp_all
      from Suc.IH[OF this] Cons True show ?thesis by simp
    next
      case False
      with Cons Suc.prems show ?thesis by simp
    qed
  qed
qed

lemma initial_frontier_inv:
  "frontier_inv ipa nets max_devices seed_devices (initial_frontier seed_devices w)"
  by (simp add: frontier_inv_def initial_frontier_def)

text \<open>
  Termination: an iteration either stores a new device, which can happen fewer than
  \<open>max_devices\<close> times, or leaves the store and only shortens the queue. So the loop
  returns, and it returns one of the states \<open>state_after k\<close>.
\<close>

lemma process_device_decreases:
  assumes inv: "frontier_inv ipa nets max_devices seeds st"
    and room: "int (length (discovered_devices st)) < max_devices"
  shows "nat (max_devices - int (length (discovered_devices (process_device nm ipa nets p st))))
            < nat (max_devices - int (length (discovered_devices st)))
         \<or> discovered_devices (process_device nm ipa nets p st) = discovered_devices st
            \<and> discovery_queue (process_device nm ipa nets p st) = discovery_queue st"
proof (cases rule: process_device_cases[of p st nm ipa nets])
  case attempted
  then show ?thesis by simp
next
  case skipped
  then show ?thesis by simp
next
  case (visited a d w)
  have "a \<notin> fst ` set (discovered_devices st)"
    using inv visited(2) by (auto simp: frontier_inv_def)
  then have "length (discovered_devices (process_device nm ipa nets p st)) = Suc (length (discovered_devices st))"
    unfolding visited(6) by (simp add: length_alist_update)
  with room show ?thesis by simp
qed

lemma discover_loop_terminates:
  fixes st :: "'w frontier"
  assumes "frontier_inv ipa nets max_devices seeds st"
  shows "\<exists>k. discover_loop nm ipa nets max_devices st = Some (state_after nm ipa nets max_devices k st)"
proof -
  have "wf (measures [\<lambda>st::'w frontier. nat (max_devices - int (length (discovered_devices st))),
                      \<lambda>st. length (discovery_queue st)])"
    by simp
  then show ?thesis
    using assms
  proof (induction st rule: wf_induct_rule)
    case (less st)
    show ?case
    proof (cases "discovery_queue st")
      case Nil
      then have "discover_loop nm ipa nets max_devices st = Some (state_after nm ipa nets max_devices 0 st)"
        by (simp add: discover_loop.simps)
      then show ?thesis ..
    next
      case (Cons p q)
      show ?thesis
      proof (cases "int (length (discovered_devices st)) < max_devices")
        case False
        with Cons have "discover_loop nm ipa nets max_devices st = Some (state_after nm ipa nets max_devices 0 st)"
          by (simp add: discover_loop.simps)
        then show ?thesis ..
      next
        case True
        let ?popped = "st\<lparr>discovery_queue := q\<rparr>"
        let ?next = "process_device nm ipa nets p ?popped"
        have inv_popped: "frontier_inv ipa nets max_devices seeds ?popped"
          using less.prems Cons by (rule frontier_inv_pop)
        have inv_next: "frontier_inv ipa nets max_devices seeds ?next"
          using inv_popped True by (intro process_device_inv) simp_all
        have "(?next, st) \<in> measures [\<lambda>st. nat (max_devices - int (length (discovered_devices st))),
                                       \<lambda>st. length (discovery_queue st)]"
          using process_device_decreases[OF inv_popped, of nm p] True Cons by auto
        from less.IH[OF this inv_next] obtain k where
          k: "discover_loop nm ipa nets max_devices ?next = Some (state_after nm ipa nets max_devices k ?next)"
          by blast
        have "discover_loop nm ipa nets max_devices st = discover_loop nm ipa nets max_devices ?next"
          using Cons True by (subst discover_loop.simps) simp
        also note k
        also have "state_after nm ipa nets max_devices k ?next = state_after nm ipa nets max_devices (Suc k) st"
          using Cons True by simp
        finally show ?thesis ..
      qed
    qed
  qed
qed

lemma discover_network_run_state:
  "\<exists>k. discover_network_run nm ipa seed_devices max_devices ignore_subnets w
        = Some (state_after nm ipa (ignored_networks_of ipa ignore_subnets) max_devices k
                  (initial_frontier seed_devices w))"
  unfolding discover_network_run_def
  by (rule discover_loop_terminates[OF initial_frontier_inv])

lemma state_after_Suc:
  "state_after nm ipa nets max_devices (Suc k) st
     = state_after nm ipa nets max_devices (Suc 0) (state_after nm ipa nets max_devices k st)"
proof (induction k arbitrary: st)
  case 0
  show ?case by simp
next
  case (Suc k)
  show ?case
  proof (cases "discovery_queue st")
    case Nil
    then show ?thesis by simp
  next
    case (Cons p q)
    show ?thesis
    proof (cases "int (length (discovered_devices st)) < max_devices")
      case True
      have "state_after nm ipa nets max_devices (Suc (Suc k)) st
              = state_after nm ipa nets max_devices (Suc k)
                  (process_device nm ipa nets p (st\<lparr>discovery_queue := q\<rparr>))"
        using Cons True by simp
      also have "\<dots> = state_after nm ipa nets max_devices (Suc 0)
                          (state_after nm ipa nets max_devices k
                             (process_device nm ipa nets p (st\<lparr>discovery_queue := q\<rparr>)))"
        by (rule Suc.IH)
      also have "state_after nm ipa nets max_devices k
                   (process_device nm ipa nets p (st\<lparr>discovery_queue := q\<rparr>))
                 = state_after nm ipa nets max_devices (Suc k) st"
        using Cons True by simp
      finally show ?thesis .
    next
      case False
      with Cons show ?thesis by simp
    qed
  qed
qed

lemma run_state_inv:
  "frontier_inv ipa nets max_devices seed_devices
     (state_after nm ipa nets max_devices k (initial_frontier seed_devices w))"
  by (intro state_after_inv initial_frontier_inv)

section \<open>The device cap\<close>

text \<open>
  C1, as amended. Throughout any run of \<open>discover_network\<close> (every seed list, every
  \<open>max_devices\<close>, every behaviour of the session collaborator), the number of entries of the
  store never exceeds the larger of 0 and \<open>max_devices\<close>: it never exceeds \<open>max_devices\<close> when
  that is not negative, and the store stays empty when it is negative. This holds of the
  state after any number of iterations, and of the dictionary that the run returns; the
  run always returns, and the keys of the store are distinct, so that its length is the
  number of its entries.
\<close>

theorem store_never_exceeds_max_devices:
  "int (length (discovered_devices
          (state_after nm ipa (ignored_networks_of ipa ignore_subnets) max_devices k
             (initial_frontier seed_devices w)))) \<le> max 0 max_devices
   \<and> distinct (map fst (discovered_devices
          (state_after nm ipa (ignored_networks_of ipa ignore_subnets) max_devices k
             (initial_frontier seed_devices w))))
   \<and> (\<exists>j. discover_network_run nm ipa seed_devices max_devices ignore_subnets w
             = Some (state_after nm ipa (ignored_networks_of ipa ignore_subnets) max_devices j
                       (initial_frontier seed_devices w)))
   \<and> (\<exists>devices. discover_network nm ipa seed_devices max_devices ignore_subnets w = Some devices
         \<and> int (length devices) \<le> max 0 max_devices \<and> distinct (map fst devices))"
proof -
  let ?nets = "ignored_networks_of ipa ignore_subnets"
  let ?st = "\<lambda>k. state_after nm ipa ?nets max_devices k (initial_frontier seed_devices w)"
  have inv: "frontier_inv ipa ?nets max_devices seed_devices (?st k)" for k
    by (rule run_state_inv)
  obtain j where j: "discover_network_run nm ipa seed_devices max_devices ignore_subnets w = Some (?st j)"
    using discover_network_run_state[of nm ipa seed_devices max_devices ignore_subnets w] by blast
  have "int (length (discovered_devices (?st k))) \<le> max 0 max_devices"
    using inv[of k] by (simp add: frontier_inv_def)
  moreover have "distinct (map fst (discovered_devices (?st k)))"
    using inv[of k] by (simp add: frontier_inv_def)
  moreover have "discover_network nm ipa seed_devices max_devices ignore_subnets w
                   = Some (discovered_devices (?st j))"
    using j by (simp add: discover_network_def)
  moreover have "int (length (discovered_devices (?st j))) \<le> max 0 max_devices"
    using inv[of j] by (simp add: frontier_inv_def)
  moreover have "distinct (map fst (discovered_devices (?st j)))"
    using inv[of j] by (simp add: frontier_inv_def)
  ultimately show ?thesis
    using j by blast
qed

text \<open>
  C1 as stated fails for a negative \<open>max_devices\<close>: the loop does not run, and the empty
  store has more entries than \<open>max_devices\<close> allows.
\<close>

theorem negative_max_devices_counterexample:
  "discover_network lab ipv4 [lab_seed] (- 1) None 0 = Some []
   \<and> \<not> int (length ([] :: (string \<times> device_data) list)) \<le> - 1"
  by (simp add: discover_network_def discover_network_run_def discover_loop.simps initial_frontier_def)

text \<open>C1 on the concrete network with a cap of 2: after three iterations two devices are stored.\<close>

theorem store_never_exceeds_max_devices_witness:
  "map fst (discovered_devices (state_after lab ipv4 (ignored_networks_of ipv4 None) 2 3
       (initial_frontier [lab_seed] 0))) = [''10.0.0.1'', ''10.0.0.2'']
   \<and> int (length (discovered_devices (state_after lab ipv4 (ignored_networks_of ipv4 None) 2 3
       (initial_frontier [lab_seed] 0)))) \<le> 2"
proof -
  have "map fst (discovered_devices (state_after lab ipv4 (ignored_networks_of ipv4 None) 2 3
       (initial_frontier [lab_seed] 0))) = [''10.0.0.1'', ''10.0.0.2'']"
    by code_simp
  then show ?thesis
    using store_never_exceeds_max_devices[of lab ipv4 None 2 3 "[lab_seed]" 0] by simp
qed

section \<open>Visits\<close>

text \<open>
  C6. Within a run no address is visited twice: the log of the calls of
  \<open>discover_single_device\<close> has no repetition, after any number of iterations and when the
  run returns, whatever the seed list (duplicates included) and whatever the devices
  answer. The log is the list of the keys of the store, in order.
\<close>

theorem no_address_visited_twice:
  "distinct (visit_log (state_after nm ipa (ignored_networks_of ipa ignore_subnets) max_devices k
                          (initial_frontier seed_devices w)))
   \<and> visit_log (state_after nm ipa (ignored_networks_of ipa ignore_subnets) max_devices k
                   (initial_frontier seed_devices w))
       = map fst (discovered_devices
                   (state_after nm ipa (ignored_networks_of ipa ignore_subnets) max_devices k
                      (initial_frontier seed_devices w)))
   \<and> (\<exists>st. discover_network_run nm ipa seed_devices max_devices ignore_subnets w = Some st
           \<and> distinct (visit_log st) \<and> visit_log st = map fst (discovered_devices st))"
proof -
  let ?nets = "ignored_networks_of ipa ignore_subnets"
  let ?st = "\<lambda>k. state_after nm ipa ?nets max_devices k (initial_frontier seed_devices w)"
  have inv: "frontier_inv ipa ?nets max_devices seed_devices (?st k)" for k
    by (rule run_state_inv)
  obtain j where j: "discover_network_run nm ipa seed_devices max_devices ignore_subnets w = Some (?st j)"
    using discover_network_run_state[of nm ipa seed_devices max_devices ignore_subnets w] by blast
  have "distinct (visit_log (?st k))"
    using inv[of k] by (simp add: frontier_inv_def)
  moreover have "visit_log (?st k) = map fst (discovered_devices (?st k))"
    using inv[of k] by (simp add: frontier_inv_def)
  moreover have "distinct (visit_log (?st j))"
    using inv[of j] by (simp add: frontier_inv_def)
  moreover have "visit_log (?st j) = map fst (discovered_devices (?st j))"
    using inv[of j] by (simp add: frontier_inv_def)
  ultimately show ?thesis
    using j by blast
qed

text \<open>
  C6 on the concrete network with the seed given twice: the second copy is discarded, and
  10.0.0.1, which 10.0.0.2 names as its neighbor, is not visited again.
\<close>

theorem no_address_visited_twice_witness:
  "visit_log (state_after lab ipv4 (ignored_networks_of ipv4 None) 5 3
                (initial_frontier [lab_seed, lab_seed] 0)) = [''10.0.0.1'', ''10.0.0.2'']
   \<and> distinct (visit_log (state_after lab ipv4 (ignored_networks_of ipv4 None) 5 3
                (initial_frontier [lab_seed, lab_seed] 0)))"
proof -
  have "visit_log (state_after lab ipv4 (ignored_networks_of ipv4 None) 5 3
                (initial_frontier [lab_seed, lab_seed] 0)) = [''10.0.0.1'', ''10.0.0.2'']"
    by code_simp
  then show ?thesis
    using no_address_visited_twice[of lab ipv4 None 5 3 "[lab_seed, lab_seed]" 0] by simp
qed

section \<open>Excluded ranges\<close>

lemma process_excluded:
  assumes "map_of p ''ip'' = Some a" and "excluded ipa nets a"
  shows "Some a \<in> attempted_ips (process_device nm ipa nets p st)
         \<and> discovered_devices (process_device nm ipa nets p st) = discovered_devices st
         \<and> visit_log (process_device nm ipa nets p st) = visit_log st
         \<and> world (process_device nm ipa nets p st) = world st
         \<and> discovery_queue (process_device nm ipa nets p st) = discovery_queue st"
proof (cases rule: process_device_cases[of p st nm ipa nets])
  case attempted
  with assms show ?thesis by simp
next
  case skipped
  with assms show ?thesis by simp
next
  case (visited b d w)
  with assms show ?thesis by simp
qed

text \<open>
  C7. With the networks that \<open>ip_network\<close> accepts among the configured subnets, no address
  that lies in one of them is a key of the store, after any number of iterations and when
  the run returns. When the entry popped from the queue has such an address, the
  iteration leaves the store as it was, the address is in \<open>attempted_ips\<close> after it and is
  not a key of the store, and the queue is the rest of the queue.
\<close>

theorem excluded_address_never_stored:
  "(\<forall>a\<in>fst ` set (discovered_devices
        (state_after nm ipa (ignored_networks_of ipa ignore_subnets) max_devices k
           (initial_frontier seed_devices w))).
      \<not> excluded ipa (ignored_networks_of ipa ignore_subnets) a)
   \<and> (\<exists>st. discover_network_run nm ipa seed_devices max_devices ignore_subnets w = Some st
         \<and> (\<forall>a\<in>fst ` set (discovered_devices st).
               \<not> excluded ipa (ignored_networks_of ipa ignore_subnets) a))
   \<and> (discovery_queue (state_after nm ipa (ignored_networks_of ipa ignore_subnets) max_devices k
           (initial_frontier seed_devices w)) = p # q
       \<and> int (length (discovered_devices
            (state_after nm ipa (ignored_networks_of ipa ignore_subnets) max_devices k
               (initial_frontier seed_devices w)))) < max_devices
       \<and> map_of p ''ip'' = Some a
       \<and> excluded ipa (ignored_networks_of ipa ignore_subnets) a
      \<longrightarrow> Some a \<in> attempted_ips
            (state_after nm ipa (ignored_networks_of ipa ignore_subnets) max_devices (Suc k)
               (initial_frontier seed_devices w))
          \<and> a \<notin> fst ` set (discovered_devices
            (state_after nm ipa (ignored_networks_of ipa ignore_subnets) max_devices (Suc k)
               (initial_frontier seed_devices w)))
          \<and> discovered_devices
            (state_after nm ipa (ignored_networks_of ipa ignore_subnets) max_devices (Suc k)
               (initial_frontier seed_devices w))
            = discovered_devices
            (state_after nm ipa (ignored_networks_of ipa ignore_subnets) max_devices k
               (initial_frontier seed_devices w))
          \<and> discovery_queue
            (state_after nm ipa (ignored_networks_of ipa ignore_subnets) max_devices (Suc k)
               (initial_frontier seed_devices w)) = q)"
proof -
  let ?nets = "ignored_networks_of ipa ignore_subnets"
  let ?st = "\<lambda>k. state_after nm ipa ?nets max_devices k (initial_frontier seed_devices w)"
  have inv: "frontier_inv ipa ?nets max_devices seed_devices (?st k)" for k
    by (rule run_state_inv)
  have stored: "\<forall>a\<in>fst ` set (discovered_devices (?st k)). \<not> excluded ipa ?nets a" for k
    using inv[of k] by (simp add: frontier_inv_def)
  obtain j where j: "discover_network_run nm ipa seed_devices max_devices ignore_subnets w = Some (?st j)"
    using discover_network_run_state[of nm ipa seed_devices max_devices ignore_subnets w] by blast
  have final: "\<exists>st. discover_network_run nm ipa seed_devices max_devices ignore_subnets w = Some st
         \<and> (\<forall>a\<in>fst ` set (discovered_devices st). \<not> excluded ipa ?nets a)"
    using j stored[of j] by blast
  have step: "Some a \<in> attempted_ips (?st (Suc k))
          \<and> a \<notin> fst ` set (discovered_devices (?st (Suc k)))
          \<and> discovered_devices (?st (Suc k)) = discovered_devices (?st k)
          \<and> discovery_queue (?st (Suc k)) = q"
    if "discovery_queue (?st k) = p # q" "int (length (discovered_devices (?st k))) < max_devices"
       "map_of p ''ip'' = Some a" "excluded ipa ?nets a"
  proof -
    have next_state: "?st (Suc k) = process_device nm ipa ?nets p ((?st k)\<lparr>discovery_queue := q\<rparr>)"
      using that(1,2) by (subst state_after_Suc) simp
    have "a \<notin> fst ` set (discovered_devices (?st (Suc k)))"
      using stored[of "Suc k"] that(4) by blast
    then show ?thesis
      unfolding next_state
      using process_excluded[OF that(3,4), of nm "(?st k)\<lparr>discovery_queue := q\<rparr>"] by simp
  qed
  show ?thesis
    using stored[of k] final step by blast
qed

text \<open>
  C7 on the scenario of the specification: the range 10.0.0.0/24 is excluded and the seed
  is 10.0.0.1; after the first iteration the address is attempted and not stored.
\<close>

theorem excluded_address_never_stored_witness:
  "discovery_queue (state_after lab ipv4 (ignored_networks_of ipv4 (Some [''10.0.0.0/24''])) 5 0
       (initial_frontier [lab_seed] 0)) = lab_seed # []
   \<and> map_of lab_seed ''ip'' = Some ''10.0.0.1''
   \<and> excluded ipv4 (ignored_networks_of ipv4 (Some [''10.0.0.0/24''])) ''10.0.0.1''
   \<and> Some ''10.0.0.1'' \<in> attempted_ips
        (state_after lab ipv4 (ignored_networks_of ipv4 (Some [''10.0.0.0/24''])) 5 (Suc 0)
           (initial_frontier [lab_seed] 0))
   \<and> ''10.0.0.1'' \<notin> fst ` set (discovered_devices
        (state_after lab ipv4 (ignored_networks_of ipv4 (Some [''10.0.0.0/24''])) 5 (Suc 0)
           (initial_frontier [lab_seed] 0)))"
proof -
  let ?nets = "ignored_networks_of ipv4 (Some [''10.0.0.0/24''])"
  have a: "discovery_queue (state_after lab ipv4 ?nets 5 0 (initial_frontier [lab_seed] 0)) = lab_seed # []"
    by (simp add: initial_frontier_def)
  have b: "int (length (discovered_devices (state_after lab ipv4 ?nets 5 0 (initial_frontier [lab_seed] 0)))) < 5"
    by (simp add: initial_frontier_def)
  have c: "map_of lab_seed ''ip'' = Some ''10.0.0.1''"
    by (simp add: lab_seed_def)
  have d: "excluded ipv4 ?nets ''10.0.0.1''"
    by code_simp
  from excluded_address_never_stored[of lab ipv4 "Some [''10.0.0.0/24'']" 5 0 "[lab_seed]" 0
      lab_seed "[]" "''10.0.0.1''"] a b c d
  show ?thesis by blast
qed

section \<open>Failed connections\<close>

text \<open>
  C8. When the entry at the head of the queue has a well-formed address that is neither
  attempted nor excluded, and \<open>ConnectHandler\<close> raises for it, the iteration stores under
  the address the record that has only the keys \<open>ip\<close> and \<open>discovered_at\<close> (no neighbors,
  no version fields, no interfaces, no raw output), adds the address to \<open>attempted_ips\<close>,
  and leaves the rest of the queue as it is; the loop goes on from that state.
\<close>

theorem failed_connection_minimal_record:
  assumes "discovery_queue st = p # q"
    and "int (length (discovered_devices st)) < max_devices"
    and "map_of p ''ip'' = Some a"
    and "Some a \<notin> attempted_ips st"
    and "ip_address ipa a = Some ip_addr"
    and "\<not> in_ignored nets ip_addr"
    and "now_isoformat nm (world st) = (now, w1)"
    and "ConnectHandler nm p w1 = (Inl e, w2)"
  shows "state_after nm ipa nets max_devices (Suc 0) st =
           st\<lparr>discovery_queue := q,
              discovered_devices :=
                AList.update a
                  \<lparr>dd_items = [(''ip'', a), (''discovered_at'', now)], dd_neighbors = None,
                   dd_interfaces = None, dd_raw_output = None\<rparr>
                  (discovered_devices st),
              attempted_ips := insert (Some a) (attempted_ips st),
              world := w2,
              visit_log := visit_log st @ [a]\<rparr>
         \<and> map_of (discovered_devices (state_after nm ipa nets max_devices (Suc 0) st)) a =
             Some \<lparr>dd_items = [(''ip'', a), (''discovered_at'', now)], dd_neighbors = None,
                   dd_interfaces = None, dd_raw_output = None\<rparr>
         \<and> discover_loop nm ipa nets max_devices st
             = discover_loop nm ipa nets max_devices (state_after nm ipa nets max_devices (Suc 0) st)"
proof -
  let ?minimal = "\<lparr>dd_items = [(''ip'', a), (''discovered_at'', now)], dd_neighbors = None,
                   dd_interfaces = None, dd_raw_output = None\<rparr>"
  have single: "discover_single_device nm p (world st) = (?minimal, w2)"
    using assms(3,7,8) by (simp add: discover_single_device_def connect_def)
  have processed: "process_device nm ipa nets p (st\<lparr>discovery_queue := q\<rparr>) =
           st\<lparr>discovery_queue := q,
              discovered_devices := AList.update a ?minimal (discovered_devices st),
              attempted_ips := insert (Some a) (attempted_ips st),
              world := w2,
              visit_log := visit_log st @ [a]\<rparr>"
    using assms(3-6) single by (simp add: process_device_def)
  have next_state: "state_after nm ipa nets max_devices (Suc 0) st
                      = process_device nm ipa nets p (st\<lparr>discovery_queue := q\<rparr>)"
    using assms(1,2) by simp
  have "discover_loop nm ipa nets max_devices st
          = discover_loop nm ipa nets max_devices (process_device nm ipa nets p (st\<lparr>discovery_queue := q\<rparr>))"
    using assms(1,2) by (subst discover_loop.simps) simp
  then show ?thesis
    unfolding next_state processed by (simp add: update_conv')
qed

text \<open>C8 on the concrete network: 10.0.0.3 times out, and the next seed stays queued.\<close>

theorem failed_connection_minimal_record_witness:
  "ConnectHandler lab (AList.update ''ip'' ''10.0.0.3'' lab_seed) 1
     = (Inl (NetmikoTimeoutException ''timed out''), 2)
   \<and> map_of (discovered_devices
        (state_after lab ipv4 [] 5 (Suc 0)
           (initial_frontier [AList.update ''ip'' ''10.0.0.3'' lab_seed, lab_seed] 0))) ''10.0.0.3''
      = Some \<lparr>dd_items = [(''ip'', ''10.0.0.3''), (''discovered_at'', ''2024-01-01T00:00:00'')],
              dd_neighbors = None, dd_interfaces = None, dd_raw_output = None\<rparr>
   \<and> discovery_queue
        (state_after lab ipv4 [] 5 (Suc 0)
           (initial_frontier [AList.update ''ip'' ''10.0.0.3'' lab_seed, lab_seed] 0)) = [lab_seed]"
proof -
  let ?p = "AList.update ''ip'' ''10.0.0.3'' lab_seed"
  let ?st = "initial_frontier [?p, lab_seed] 0 :: nat frontier"
  have a: "discovery_queue ?st = ?p # [lab_seed]"
    by (simp add: initial_frontier_def)
  have b: "int (length (discovered_devices ?st)) < 5"
    by (simp add: initial_frontier_def)
  have c: "map_of ?p ''ip'' = Some ''10.0.0.3''"
    by (simp add: update_conv')
  have d: "Some ''10.0.0.3'' \<notin> attempted_ips ?st"
    by (simp add: initial_frontier_def)
  have e: "ip_address ipv4 ''10.0.0.3'' = Some 167772163"
    by code_simp
  have f: "\<not> in_ignored [] (167772163 :: int)"
    by (simp add: in_ignored_def)
  have g: "now_isoformat lab (world ?st) = (''2024-01-01T00:00:00'', 1)"
    by (simp add: lab_def initial_frontier_def)
  have h: "ConnectHandler lab ?p 1 = (Inl (NetmikoTimeoutException ''timed out''), 2)"
    by (simp add: lab_def lab_seed_def)
  note t = failed_connection_minimal_record[OF a b c d e f g h]
  have q: "discovery_queue (state_after lab ipv4 [] 5 (Suc 0) ?st) = [lab_seed]"
    by (subst t[THEN conjunct1]) simp
  show ?thesis
    using h t[THEN conjunct2, THEN conjunct1] q by (intro conjI)
qed

section \<open>Enqueueing neighbors\<close>

lemma map_of_new_params: "map_of (AList.update ''ip'' nip p) ''ip'' = Some nip"
  by (simp add: update_conv')

lemma enqueue_already_queued:
  "Some a \<in> (\<lambda>d. map_of d ''ip'') ` set queue \<Longrightarrow>
   filter (\<lambda>d. map_of d ''ip'' = Some a) (enqueue_neighbors ipa nets p att ns queue)
     = filter (\<lambda>d. map_of d ''ip'' = Some a) queue"
proof (induction ns arbitrary: queue)
  case Nil
  show ?case by simp
next
  case (Cons n ns)
  show ?case
  proof (cases "map_of n ''ip''")
    case None
    with Cons show ?thesis by simp
  next
    case (Some nip)
    show ?thesis
    proof (cases "nip \<noteq> [] \<and> Some nip \<notin> att \<and> Some nip \<notin> set (map (\<lambda>d. map_of d ''ip'') queue)
                  \<and> (\<exists>ip_addr. ip_address ipa nip = Some ip_addr \<and> \<not> in_ignored nets ip_addr)")
      case False
      with Some Cons show ?thesis by (auto split: option.splits)
    next
      case True
      then have step: "enqueue_neighbors ipa nets p att (n # ns) queue
                 = enqueue_neighbors ipa nets p att ns (queue @ [AList.update ''ip'' nip p])"
        using Some by auto
      from True Cons.prems have "nip \<noteq> a" by auto
      then have same: "filter (\<lambda>d. map_of d ''ip'' = Some a) (queue @ [AList.update ''ip'' nip p])
                  = filter (\<lambda>d. map_of d ''ip'' = Some a) queue"
        by (simp add: map_of_new_params)
      have "Some a \<in> (\<lambda>d. map_of d ''ip'') ` set (queue @ [AList.update ''ip'' nip p])"
        using Cons.prems by auto
      from Cons.IH[OF this] show ?thesis
        unfolding step same .
    qed
  qed
qed

lemma enqueue_at_most_once:
  "Some a \<notin> (\<lambda>d. map_of d ''ip'') ` set queue \<Longrightarrow>
   length (filter (\<lambda>d. map_of d ''ip'' = Some a) (enqueue_neighbors ipa nets p att ns queue)) \<le> 1"
proof (induction ns arbitrary: queue)
  case Nil
  then have "\<forall>d\<in>set queue. map_of d ''ip'' \<noteq> Some a"
    by (metis imageI)
  then have "filter (\<lambda>d. map_of d ''ip'' = Some a) queue = []"
    by (simp add: filter_empty_conv)
  then show ?case by simp
next
  case (Cons n ns)
  have "\<forall>d\<in>set queue. map_of d ''ip'' \<noteq> Some a"
    using Cons.prems by (metis imageI)
  then have none: "filter (\<lambda>d. map_of d ''ip'' = Some a) queue = []"
    by (simp add: filter_empty_conv)
  show ?case
  proof (cases "map_of n ''ip''")
    case None
    with Cons show ?thesis by simp
  next
    case (Some nip)
    show ?thesis
    proof (cases "nip \<noteq> [] \<and> Some nip \<notin> att \<and> Some nip \<notin> set (map (\<lambda>d. map_of d ''ip'') queue)
                  \<and> (\<exists>ip_addr. ip_address ipa nip = Some ip_addr \<and> \<not> in_ignored nets ip_addr)")
      case False
      with Some Cons show ?thesis by (auto split: option.splits)
    next
      case True
      then have step: "enqueue_neighbors ipa nets p att (n # ns) queue
                 = enqueue_neighbors ipa nets p att ns (queue @ [AList.update ''ip'' nip p])"
        using Some by auto
      show ?thesis
      proof (cases "nip = a")
        case True
        have "Some a \<in> (\<lambda>d. map_of d ''ip'') ` set (queue @ [AList.update ''ip'' nip p])"
          using True by (simp add: map_of_new_params)
        from enqueue_already_queued[OF this, of ipa nets p att ns]
        show ?thesis
          unfolding step using none True by (simp add: map_of_new_params)
      next
        case False
        then have "Some a \<notin> (\<lambda>d. map_of d ''ip'') ` set (queue @ [AList.update ''ip'' nip p])"
          using Cons.prems by (auto simp: map_of_new_params)
        from Cons.IH[OF this] show ?thesis
          unfolding step .
      qed
    qed
  qed
qed

text \<open>
  C5, as amended. The test that a neighbor is not yet attempted and not already queued
  reads the queue as it is when that neighbor is reached, the entries appended earlier in
  the same pass included. So a pass over the neighbors of a device adds no entry for an
  address that is queued already, and adds at most one entry for an address that is not,
  however often the neighbor list has that address.
\<close>

theorem neighbor_enqueued_at_most_once:
  "(Some a \<in> (\<lambda>d. map_of d ''ip'') ` set queue \<longrightarrow>
      filter (\<lambda>d. map_of d ''ip'' = Some a) (enqueue_neighbors ipa nets p att ns queue)
        = filter (\<lambda>d. map_of d ''ip'' = Some a) queue)
   \<and> (Some a \<notin> (\<lambda>d. map_of d ''ip'') ` set queue \<longrightarrow>
      length (filter (\<lambda>d. map_of d ''ip'' = Some a) (enqueue_neighbors ipa nets p att ns queue)) \<le> 1)"
  using enqueue_already_queued[of a queue ipa nets p att ns]
    enqueue_at_most_once[of a queue ipa nets p att ns]
  by blast

text \<open>
  C5 as stated fails: for a device whose neighbor list has the new address 10.0.0.2
  twice, the pass enqueues one entry, not two.
\<close>

theorem duplicate_neighbor_enqueued_once_counterexample:
  "enqueue_neighbors ipv4 [] lab_seed {Some ''10.0.0.1''}
     [[(''device_id'', ''SW2''), (''ip'', ''10.0.0.2''), (''local_interface'', ''Gi0/1'')],
      [(''device_id'', ''SW2''), (''ip'', ''10.0.0.2''), (''local_interface'', ''Gi0/3'')]] []
   = [[(''device_type'', ''cisco_ios''), (''ip'', ''10.0.0.2''), (''username'', ''admin'')]]"
  by code_simp

text \<open>C5 on the same neighbor list, and on a queue that has the address already.\<close>

theorem neighbor_enqueued_at_most_once_witness:
  "Some ''10.0.0.2'' \<notin> (\<lambda>d. map_of d ''ip'') ` set ([] :: pydict list)
   \<and> length (filter (\<lambda>d. map_of d ''ip'' = Some ''10.0.0.2'')
        (enqueue_neighbors ipv4 [] lab_seed {Some ''10.0.0.1''}
           [[(''device_id'', ''SW2''), (''ip'', ''10.0.0.2''), (''local_interface'', ''Gi0/1'')],
            [(''device_id'', ''SW2''), (''ip'', ''10.0.0.2''), (''local_interface'', ''Gi0/3'')]] [])) \<le> 1
   \<and> Some ''10.0.0.2'' \<in> (\<lambda>d. map_of d ''ip'') ` set [AList.update ''ip'' ''10.0.0.2'' lab_seed]
   \<and> filter (\<lambda>d. map_of d ''ip'' = Some ''10.0.0.2'')
        (enqueue_neighbors ipv4 [] lab_seed {Some ''10.0.0.1''}
           [[(''device_id'', ''SW2''), (''ip'', ''10.0.0.2'')]] [AList.update ''ip'' ''10.0.0.2'' lab_seed])
      = [AList.update ''ip'' ''10.0.0.2'' lab_seed]"
proof -
  have a: "Some ''10.0.0.2'' \<notin> (\<lambda>d. map_of d ''ip'') ` set ([] :: pydict list)"
    by simp
  have b: "Some ''10.0.0.2'' \<in> (\<lambda>d. map_of d ''ip'') ` set [AList.update ''ip'' ''10.0.0.2'' lab_seed]"
    by (simp add: map_of_new_params)
  have c: "filter (\<lambda>d. map_of d ''ip'' = Some ''10.0.0.2'') [AList.update ''ip'' ''10.0.0.2'' lab_seed]
             = [AList.update ''ip'' ''10.0.0.2'' lab_seed]"
    by (simp add: map_of_new_params)
  note once = neighbor_enqueued_at_most_once[of "''10.0.0.2''" "[]" ipv4 "[]" lab_seed "{Some ''10.0.0.1''}"
      "[[(''device_id'', ''SW2''), (''ip'', ''10.0.0.2''), (''local_interface'', ''Gi0/1'')],
        [(''device_id'', ''SW2''), (''ip'', ''10.0.0.2''), (''local_interface'', ''Gi0/3'')]]"]
  note kept = neighbor_enqueued_at_most_once[of "''10.0.0.2''" "[AList.update ''ip'' ''10.0.0.2'' lab_seed]" ipv4 "[]"
      lab_seed "{Some ''10.0.0.1''}" "[[(''device_id'', ''SW2''), (''ip'', ''10.0.0.2'')]]"]
  have r1: "length (filter (\<lambda>d. map_of d ''ip'' = Some ''10.0.0.2'')
        (enqueue_neighbors ipv4 [] lab_seed {Some ''10.0.0.1''}
           [[(''device_id'', ''SW2''), (''ip'', ''10.0.0.2''), (''local_interface'', ''Gi0/1'')],
            [(''device_id'', ''SW2''), (''ip'', ''10.0.0.2''), (''local_interface'', ''Gi0/3'')]] [])) \<le> 1"
    using once a by blast
  have r2: "filter (\<lambda>d. map_of d ''ip'' = Some ''10.0.0.2'')
        (enqueue_neighbors ipv4 [] lab_seed {Some ''10.0.0.1''}
           [[(''device_id'', ''SW2''), (''ip'', ''10.0.0.2'')]] [AList.update ''ip'' ''10.0.0.2'' lab_seed])
      = filter (\<lambda>d. map_of d ''ip'' = Some ''10.0.0.2'') [AList.update ''ip'' ''10.0.0.2'' lab_seed]"
    using kept b by blast
  show ?thesis
    using a r1 b r2[unfolded c] by (intro conjI)
qed

section \<open>Neighbor records\<close>

text \<open>
  C3, as amended. Every neighbor record that the parser makes from text, for either
  protocol, has a device identifier and an address, both non-empty. A structured list is
  returned as it is, without that test. In a run the commands are sent without
  \<open>parse_output\<close>, so the parser is given text: every neighbor stored in a record of the
  store has both, every queued entry is a seed or has an address, and an entry that a
  pass adds to the queue has the address of a neighbor that has one.
\<close>

theorem raw_text_neighbors_have_id_and_address:
  "(parse_cdp_neighbors (Str t) = Inr ns \<longrightarrow> (\<forall>n\<in>set ns. essential n))
   \<and> (parse_lldp_neighbors (Str t) = Inr ns \<longrightarrow> (\<forall>n\<in>set ns. essential n))
   \<and> parse_cdp_neighbors (PyList l) = Inr l
   \<and> parse_lldp_neighbors (PyList l) = Inr l
   \<and> (\<forall>x\<in>set (discovered_devices
                 (state_after nm ipa (ignored_networks_of ipa ignore_subnets) max_devices k
                    (initial_frontier seed_devices w))).
        \<forall>stored. dd_neighbors (snd x) = Some stored \<longrightarrow> (\<forall>n\<in>set stored. essential n))
   \<and> (\<forall>entry\<in>set (discovery_queue
                 (state_after nm ipa (ignored_networks_of ipa ignore_subnets) max_devices k
                    (initial_frontier seed_devices w))).
        entry \<in> set seed_devices \<or> truthy (map_of entry ''ip''))
   \<and> (\<forall>entry\<in>set (enqueue_neighbors ipa nets p att neighbors queue).
        entry \<in> set queue
        \<or> (\<exists>n\<in>set neighbors. truthy (map_of n ''ip'') \<and> map_of entry ''ip'' = map_of n ''ip''))"
proof -
  let ?st = "state_after nm ipa (ignored_networks_of ipa ignore_subnets) max_devices k
               (initial_frontier seed_devices w)"
  have inv: "frontier_inv ipa (ignored_networks_of ipa ignore_subnets) max_devices seed_devices ?st"
    by (rule run_state_inv)
  have cdp: "parse_cdp_neighbors (Str t) = Inr ns \<longrightarrow> (\<forall>n\<in>set ns. essential n)"
    using parse_cdp_text_essential[of t ns] by blast
  have lldp: "parse_lldp_neighbors (Str t) = Inr ns \<longrightarrow> (\<forall>n\<in>set ns. essential n)"
    using parse_lldp_text_essential[of t ns] by blast
  have stored: "\<forall>x\<in>set (discovered_devices ?st).
        \<forall>stored. dd_neighbors (snd x) = Some stored \<longrightarrow> (\<forall>n\<in>set stored. essential n)"
    using inv unfolding frontier_inv_def by blast
  have queued: "\<forall>entry\<in>set (discovery_queue ?st). entry \<in> set seed_devices \<or> truthy (map_of entry ''ip'')"
    using inv unfolding frontier_inv_def by blast
  have edges: "\<forall>entry\<in>set (enqueue_neighbors ipa nets p att neighbors queue).
        entry \<in> set queue
        \<or> (\<exists>n\<in>set neighbors. truthy (map_of n ''ip'') \<and> map_of entry ''ip'' = map_of n ''ip'')"
    using enqueue_entries[of _ ipa nets p att neighbors queue] by blast
  show ?thesis
    using cdp lldp stored queued edges by simp
qed

text \<open>
  C3 as stated fails on the structured path: a list with a record that has no address is
  returned with that record in it, by both parsers.
\<close>

theorem structured_neighbor_without_address_counterexample:
  "parse_cdp_neighbors (PyList [[(''device_id'', ''SW2'')]]) = Inr [[(''device_id'', ''SW2'')]]
   \<and> parse_lldp_neighbors (PyList [[(''device_id'', ''SW2'')]]) = Inr [[(''device_id'', ''SW2'')]]
   \<and> \<not> essential [(''device_id'', ''SW2'')]"
  by (simp add: essential_def)

text \<open>C3 on a CDP text and an LLDP text of one block each.\<close>

theorem raw_text_neighbors_have_id_and_address_witness:
  "parse_cdp_neighbors (Str (text_of_lines [''Device ID: SW1'', ''IP address: 10.0.0.1'']))
     = Inr [[(''device_id'', ''SW1''), (''ip'', ''10.0.0.1'')]]
   \<and> essential [(''device_id'', ''SW1''), (''ip'', ''10.0.0.1'')]
   \<and> parse_lldp_neighbors (Str (text_of_lines [''System Name: SW3'', ''Management Address: 10.0.0.3'']))
     = Inr [[(''device_id'', ''SW3''), (''ip'', ''10.0.0.3'')]]
   \<and> essential [(''device_id'', ''SW3''), (''ip'', ''10.0.0.3'')]"
proof -
  have c: "parse_cdp_neighbors (Str (text_of_lines [''Device ID: SW1'', ''IP address: 10.0.0.1'']))
     = Inr [[(''device_id'', ''SW1''), (''ip'', ''10.0.0.1'')]]"
    by code_simp
  have l: "parse_lldp_neighbors (Str (text_of_lines [''System Name: SW3'', ''Management Address: 10.0.0.3'']))
     = Inr [[(''device_id'', ''SW3''), (''ip'', ''10.0.0.3'')]]"
    by code_simp
  note cdp = raw_text_neighbors_have_id_and_address[of
      "text_of_lines [''Device ID: SW1'', ''IP address: 10.0.0.1'']"
      "[[(''device_id'', ''SW1''), (''ip'', ''10.0.0.1'')]]", THEN conjunct1, THEN mp, OF c]
  have c': "essential [(''device_id'', ''SW1''), (''ip'', ''10.0.0.1'')]"
    by (rule bspec[OF cdp]) simp
  note lldp = raw_text_neighbors_have_id_and_address[of
      "text_of_lines [''System Name: SW3'', ''Management Address: 10.0.0.3'']"
      "[[(''device_id'', ''SW3''), (''ip'', ''10.0.0.3'')]]", THEN conjunct2, THEN conjunct1, THEN mp, OF l]
  have l': "essential [(''device_id'', ''SW3''), (''ip'', ''10.0.0.3'')]"
    by (rule bspec[OF lldp]) simp
  show ?thesis
    using c c' l l' by (intro conjI)
qed

end
